theory Spec2Isabelle
  imports Main
begin

section \<open>Strings as the program sees them\<close>

text \<open>
  JavaScript strings are sequences of code units; the model uses \<^typ>\<open>string\<close>, whose
  characters are the code units below 256, read as Latin-1. Lower case is exact on them.
  Upper case is exact but for the two code units 181 and 255, whose capitals are code units
  above 255: the model leaves these two as they are.
  Numbers are the integers JavaScript represents exactly, printed in decimal.
\<close>

definition slash :: char where
  "slash = CHR ''/''"

definition backslash :: char where
  "backslash = CHR 0x5C"

definition dot :: char where
  "dot = CHR ''.''"

definition dollar :: char where
  "dollar = CHR ''$''"

definition isUpper :: "char \<Rightarrow> bool" where
  "isUpper c = (65 \<le> (of_char c :: nat) \<and> (of_char c :: nat) \<le> 90)"

definition isLower :: "char \<Rightarrow> bool" where
  "isLower c = (97 \<le> (of_char c :: nat) \<and> (of_char c :: nat) \<le> 122)"

definition isDigit :: "char \<Rightarrow> bool" where
  "isDigit c = (48 \<le> (of_char c :: nat) \<and> (of_char c :: nat) \<le> 57)"

text \<open>The class \<^verbatim>\<open>\s\<close> of a regular expression, on code units below 256.\<close>

definition isSpace :: "char \<Rightarrow> bool" where
  "isSpace c = ((of_char c :: nat) \<in> {9, 10, 11, 12, 13, 32, 160})"

text \<open>
  \<^verbatim>\<open>s.toLowerCase()\<close> and \<^verbatim>\<open>s.toUpperCase()\<close>. The capitals are the ASCII ones and the
  code units 192 to 222 but for the multiplication sign 215; the small letters are the
  ASCII ones and the code units 224 to 254 but for the division sign 247; the capital of the
  sharp s, 223, is written with two letters.
\<close>

definition toLowerChar :: "char \<Rightarrow> char" where
  "toLowerChar c =
     (let n = (of_char c :: nat) in
      if (65 \<le> n \<and> n \<le> 90) \<or> (192 \<le> n \<and> n \<le> 222 \<and> n \<noteq> 215) then char_of (n + 32)
      else c)"

definition toUpperChars :: "char \<Rightarrow> string" where
  "toUpperChars c =
     (let n = (of_char c :: nat) in
      if n = 223 then ''SS''
      else if (97 \<le> n \<and> n \<le> 122) \<or> (224 \<le> n \<and> n \<le> 254 \<and> n \<noteq> 247)
      then [char_of (n - 32)]
      else [c])"

definition toLowerCase :: "string \<Rightarrow> string" where
  "toLowerCase s = map toLowerChar s"

definition toUpperCase :: "string \<Rightarrow> string" where
  "toUpperCase s = concat (map toUpperChars s)"

text \<open>\<^verbatim>\<open>s.startsWith(v)\<close> and \<^verbatim>\<open>s.endsWith(v)\<close>.\<close>

definition startsWith :: "string \<Rightarrow> string \<Rightarrow> bool" where
  "startsWith s v = (take (length v) s = v)"

definition endsWith :: "string \<Rightarrow> string \<Rightarrow> bool" where
  "endsWith s v = (length v \<le> length s \<and> drop (length s - length v) s = v)"

text \<open>\<^verbatim>\<open>s.replace(/\\/g, '/')\<close>: every backslash becomes a slash.\<close>

definition normalizeSeparators :: "string \<Rightarrow> string" where
  "normalizeSeparators s = map (\<lambda>c. if c = backslash then slash else c) s"

text \<open>\<^verbatim>\<open>s.lastIndexOf(c)\<close>; the result \<^verbatim>\<open>-1\<close> of the source is \<^term>\<open>None\<close>.\<close>

definition lastIndexOf :: "string \<Rightarrow> char \<Rightarrow> nat option" where
  "lastIndexOf s c =
     (if c \<in> set s then Some (length s - 1 - length (takeWhile (\<lambda>x. x \<noteq> c) (rev s)))
      else None)"

text \<open>\<^verbatim>\<open>s.split(d)\<close> for a one-character separator, and \<^verbatim>\<open>xs.join(d)\<close>.\<close>

fun split :: "char \<Rightarrow> string \<Rightarrow> string list" where
  "split d [] = [[]]"
| "split d (c # cs) =
     (if c = d then [] # split d cs
      else (case split d cs of [] \<Rightarrow> [[c]] | x # xs \<Rightarrow> (c # x) # xs))"

fun join :: "char \<Rightarrow> string list \<Rightarrow> string" where
  "join d [] = []"
| "join d [x] = x"
| "join d (x # y # ys) = x @ d # join d (y # ys)"

text \<open>\<^verbatim>\<open>String(n)\<close> for an integer \<open>n\<close>, and \<^verbatim>\<open>s.padStart(n, '0')\<close>.\<close>

fun decimal :: "nat \<Rightarrow> string" where
  "decimal n =
     (if n < 10 then [char_of (48 + n)]
      else decimal (n div 10) @ [char_of (48 + n mod 10)])"

declare decimal.simps [simp del]

definition String :: "int \<Rightarrow> string" where
  "String n = (if n < 0 then CHR ''-'' # decimal (nat (- n)) else decimal (nat n))"

definition padStart :: "string \<Rightarrow> int \<Rightarrow> char \<Rightarrow> string" where
  "padStart s targetLength c = replicate (nat targetLength - length s) c @ s"

text \<open>
  The replacement text of \<^verbatim>\<open>String.prototype.replace\<close>: in it \<^verbatim>\<open>$$\<close> stands for a
  dollar sign, \<^verbatim>\<open>$&\<close> for the matched text, \<^verbatim>\<open>$`\<close> for the text before the match and
  \<^verbatim>\<open>$'\<close> for the text after it. The patterns the program builds have no capture group,
  so \<^verbatim>\<open>$1\<close> and the like stand for themselves.
\<close>

fun getSubstitution :: "string \<Rightarrow> string \<Rightarrow> string \<Rightarrow> string \<Rightarrow> string" where
  "getSubstitution matched pre after [] = []"
| "getSubstitution matched pre after [c] = [c]"
| "getSubstitution matched pre after (c # d # rest) =
     (if c = dollar then
        (if d = dollar then dollar # getSubstitution matched pre after rest
         else if d = CHR ''&'' then matched @ getSubstitution matched pre after rest
         else if d = CHR ''`'' then pre @ getSubstitution matched pre after rest
         else if d = CHR 0x27 then after @ getSubstitution matched pre after rest
         else c # getSubstitution matched pre after (d # rest))
      else c # getSubstitution matched pre after (d # rest))"

text \<open>
  \<^verbatim>\<open>s.replace(pattern, replacement)\<close> with a string pattern: the first occurrence only.
  \<open>pre\<close> is the text already passed over.
\<close>

fun replaceFirstFrom :: "string \<Rightarrow> string \<Rightarrow> string \<Rightarrow> string \<Rightarrow> string" where
  "replaceFirstFrom pat repl pre [] =
     (if pat = [] then getSubstitution pat pre [] repl else [])"
| "replaceFirstFrom pat repl pre (c # cs) =
     (if startsWith (c # cs) pat
      then getSubstitution pat pre (drop (length pat) (c # cs)) repl
             @ drop (length pat) (c # cs)
      else c # replaceFirstFrom pat repl (pre @ [c]) cs)"

definition replaceFirst :: "string \<Rightarrow> string \<Rightarrow> string \<Rightarrow> string" where
  "replaceFirst s pat repl = replaceFirstFrom pat repl [] s"

text \<open>
  \<^verbatim>\<open>s.replace(new RegExp(escapeRegExp(find), 'g'), replacement)\<close>: the escaped pattern
  matches the text \<open>find\<close> itself, and the global flag replaces every occurrence, left to
  right, without overlap. The source calls it with a non-empty \<open>find\<close> only.
\<close>

function replaceAllFrom :: "string \<Rightarrow> string \<Rightarrow> string \<Rightarrow> string \<Rightarrow> string" where
  "replaceAllFrom pat repl pre s =
     (if pat = [] \<or> s = [] then s
      else if startsWith s pat
      then getSubstitution pat pre (drop (length pat) s) repl
             @ replaceAllFrom pat repl (pre @ pat) (drop (length pat) s)
      else hd s # replaceAllFrom pat repl (pre @ [hd s]) (tl s))"
  by pat_completeness auto
termination
  by (relation "measure (\<lambda>(pat, repl, pre, s). length s)") auto

declare replaceAllFrom.simps [simp del]

definition replaceAll :: "string \<Rightarrow> string \<Rightarrow> string \<Rightarrow> string" where
  "replaceAll s pat repl = replaceAllFrom pat repl [] s"

text \<open>\<^verbatim>\<open>s.trim()\<close>.\<close>

definition trim :: "string \<Rightarrow> string" where
  "trim s = rev (dropWhile isSpace (rev (dropWhile isSpace s)))"

text \<open>\<^verbatim>\<open>s.replace(/\s+/g, ' ')\<close>: each run of white space becomes one space, written when the
  run ends.\<close>

fun normalizeSpace :: "string \<Rightarrow> string" where
  "normalizeSpace [] = []"
| "normalizeSpace [c] = (if isSpace c then '' '' else [c])"
| "normalizeSpace (c # d # cs) =
     (if isSpace c then (if isSpace d then normalizeSpace (d # cs)
                         else CHR '' '' # normalizeSpace (d # cs))
      else c # normalizeSpace (d # cs))"

text \<open>\<^verbatim>\<open>s.replace(/[^a-zA-Z0-9\s-_]/g, '')\<close>.\<close>

definition removeSpecial :: "string \<Rightarrow> string" where
  "removeSpecial s =
     filter (\<lambda>c. isLower c \<or> isUpper c \<or> isDigit c \<or> isSpace c
                 \<or> c = CHR ''-'' \<or> c = CHR ''_'') s"

text \<open>The three steps of \<^verbatim>\<open>kebab_case\<close>: a hyphen between a lower-case letter and the
  upper-case letter after it, each run of white space and underscores becomes a hyphen, lower
  case.\<close>

fun splitCamel :: "string \<Rightarrow> string" where
  "splitCamel [] = []"
| "splitCamel [c] = [c]"
| "splitCamel (c # d # cs) =
     (if isLower c \<and> isUpper d then c # CHR ''-'' # splitCamel (d # cs)
      else c # splitCamel (d # cs))"

fun hyphenate :: "string \<Rightarrow> string" where
  "hyphenate [] = []"
| "hyphenate [c] = (if isSpace c \<or> c = CHR ''_'' then ''-'' else [c])"
| "hyphenate (c # d # cs) =
     (if isSpace c \<or> c = CHR ''_''
      then (if isSpace d \<or> d = CHR ''_'' then hyphenate (d # cs)
            else CHR ''-'' # hyphenate (d # cs))
      else c # hyphenate (d # cs))"

definition kebabCase :: "string \<Rightarrow> string" where
  "kebabCase s = toLowerCase (hyphenate (splitCamel s))"

section \<open>The path functions of the platform\<close>

text \<open>
  \<^verbatim>\<open>path.basename\<close>, \<^verbatim>\<open>path.extname\<close>, \<^verbatim>\<open>path.dirname\<close> and \<^verbatim>\<open>path.parse\<close> belong to
  the platform, not to the repository; they are modelled after the POSIX variant. Trailing
  slashes are ignored; the base is what follows the last remaining slash; the extension
  starts at the last dot of the base, unless that dot is the first character of the base or
  the base is \<^verbatim>\<open>..\<close>.
\<close>

definition stripTrailingSlashes :: "string \<Rightarrow> string" where
  "stripTrailingSlashes p = rev (dropWhile (\<lambda>c. c = slash) (rev p))"

definition basename :: "string \<Rightarrow> string" where
  "basename p = rev (takeWhile (\<lambda>c. c \<noteq> slash) (rev (stripTrailingSlashes p)))"

definition extname :: "string \<Rightarrow> string" where
  "extname p =
     (let b = basename p in
      case lastIndexOf b dot of
        None \<Rightarrow> []
      | Some i \<Rightarrow> if i = 0 \<or> b = ''..'' then [] else drop i b)"

text \<open>\<^verbatim>\<open>path.basename(p, suffix)\<close>: the suffix is cut from the base unless it is the whole
  base. (The source passes \<^verbatim>\<open>path.extname(p)\<close>, which is empty or a proper end of the base.)\<close>

definition basenameSuffix :: "string \<Rightarrow> string \<Rightarrow> string" where
  "basenameSuffix p suffix =
     (let b = basename p in
      if suffix \<noteq> [] \<and> suffix = p then []
      else if suffix \<noteq> [] \<and> endsWith b suffix \<and> suffix \<noteq> b
      then take (length b - length suffix) b
      else b)"

definition dirname :: "string \<Rightarrow> string" where
  "dirname p =
     (case p of
        [] \<Rightarrow> ''.''
      | c # cs \<Rightarrow>
          (let r = dropWhile (\<lambda>x. x \<noteq> slash) (dropWhile (\<lambda>x. x = slash) (rev cs)) in
           if r = [] then (if c = slash then ''/'' else ''.'')
           else if c = slash \<and> length r = 1 then ''//''
           else take (length r) p))"

text \<open>\<^verbatim>\<open>path.parse(p)\<close>, the two fields the source reads.\<close>

definition parseExt :: "string \<Rightarrow> string" where
  "parseExt p = extname p"

definition parseName :: "string \<Rightarrow> string" where
  "parseName p = take (length (basename p) - length (extname p)) (basename p)"

section \<open>The rule evaluator\<close>

text \<open>
  A rule is an object with a \<^verbatim>\<open>type\<close> tag and the fields its type reads; a field the
  client left out is \<^term>\<open>None\<close>. The field \<^verbatim>\<open>x\<close> of the source is \<open>rx\<close> here
  (\<^verbatim>\<open>type\<close> is \<open>rtype\<close>).
\<close>

record rule =
  rtype :: string
  rfind :: "string option"
  rreplace :: "string option"
  rpattern :: "string option"
  rflags :: "string option"
  rtext :: "string option"
  rstart :: "int option"
  rpadding :: "int option"
  rposition :: "string option"
  rseparator :: "string option"

text \<open>\<^verbatim>\<open>x || d\<close>: a missing field, an empty string and the number zero all give the
  default.\<close>

definition strOr :: "string option \<Rightarrow> string \<Rightarrow> string" where
  "strOr x d = (case x of None \<Rightarrow> d | Some s \<Rightarrow> if s = [] then d else s)"

definition numOr :: "int option \<Rightarrow> int \<Rightarrow> int" where
  "numOr x d = (case x of None \<Rightarrow> d | Some n \<Rightarrow> if n = 0 then d else n)"

text \<open>
  The regular-expression engine of the platform, which the \<^verbatim>\<open>regex\<close> rule hands a pattern
  of the client to, is a parameter: from pattern, flags, replacement and subject to the
  result, or \<^term>\<open>None\<close> where \<^verbatim>\<open>new RegExp\<close> throws (the source catches that and goes
  on). \<open>rejectAll\<close> is the engine used where no rule of type \<^verbatim>\<open>regex\<close> occurs.
\<close>

type_synonym regexEngine = "string \<Rightarrow> string \<Rightarrow> string \<Rightarrow> string \<Rightarrow> string option"

definition rejectAll :: regexEngine where
  "rejectAll pattern flags repl s = None"

text \<open>
  The index a caller hands to the rules is a number: a count, or \<^verbatim>\<open>NaN\<close>, which is what
  the engine's counter gives for one group id (see \<open>nextIndex\<close> below). A sum with
  \<^verbatim>\<open>NaN\<close> is \<^verbatim>\<open>NaN\<close>, and \<^verbatim>\<open>String(NaN)\<close> is the text \<^verbatim>\<open>NaN\<close>.
\<close>

datatype jsNumber = Index nat | NaN

text \<open>The number a \<^verbatim>\<open>numbering\<close> rule writes.\<close>

definition numberText :: "jsNumber \<Rightarrow> rule \<Rightarrow> string" where
  "numberText index r =
     padStart (case index of
                 Index k \<Rightarrow> String (int k + numOr (rstart r) 1)
               | NaN \<Rightarrow> ''NaN'')
       (numOr (rpadding r) 1) (CHR ''0'')"

text \<open>One turn of the \<^verbatim>\<open>switch\<close>; a type without a case leaves the name as it is.\<close>

definition applyRule :: "regexEngine \<Rightarrow> jsNumber \<Rightarrow> rule \<Rightarrow> string \<Rightarrow> string" where
  "applyRule engine index r newName =
     (if rtype r = ''replace'' then
        (case rfind r of
           None \<Rightarrow> newName
         | Some f \<Rightarrow> if f = [] then newName else replaceAll newName f (strOr (rreplace r) []))
      else if rtype r = ''regex'' then
        (case rpattern r of
           None \<Rightarrow> newName
         | Some p \<Rightarrow>
             if p = [] then newName
             else (case engine p (strOr (rflags r) ''g'') (strOr (rreplace r) []) newName of
                     None \<Rightarrow> newName
                   | Some s \<Rightarrow> s))
      else if rtype r = ''trim'' then trim newName
      else if rtype r = ''normalize_space'' then normalizeSpace newName
      else if rtype r = ''lowercase'' then toLowerCase newName
      else if rtype r = ''uppercase'' then toUpperCase newName
      else if rtype r = ''prefix'' then
        (case rtext r of
           None \<Rightarrow> newName
         | Some t \<Rightarrow> if t = [] then newName else t @ newName)
      else if rtype r = ''suffix'' then
        (case rtext r of
           None \<Rightarrow> newName
         | Some t \<Rightarrow> if t = [] then newName else newName @ t)
      else if rtype r = ''remove_special'' then removeSpecial newName
      else if rtype r = ''kebab_case'' then kebabCase newName
      else if rtype r = ''numbering'' then
        (if rposition r = Some ''start''
         then numberText index r @ strOr (rseparator r) ''-'' @ newName
         else newName @ strOr (rseparator r) ''-'' @ numberText index r)
      else newName)"

text \<open>The loop over the rules, in order.\<close>

fun applyRules :: "regexEngine \<Rightarrow> jsNumber \<Rightarrow> rule list \<Rightarrow> string \<Rightarrow> string" where
  "applyRules engine index [] newName = newName"
| "applyRules engine index (r # rs) newName =
     applyRules engine index rs (applyRule engine index r newName)"

definition applyRenamingRules ::
  "regexEngine \<Rightarrow> string \<Rightarrow> jsNumber \<Rightarrow> rule list \<Rightarrow> string" where
  "applyRenamingRules engine originalName index rules =
     (let ext = extname originalName;
          name = basenameSuffix originalName ext
      in applyRules engine index rules name @ ext)"

text \<open>A rule of a given type with every field left out, to write rules down.\<close>

definition ruleOfType :: "string \<Rightarrow> rule" where
  "ruleOfType t =
     \<lparr>rtype = t, rfind = None, rreplace = None, rpattern = None, rflags = None,
      rtext = None, rstart = None, rpadding = None, rposition = None, rseparator = None\<rparr>"

section \<open>The rename engine\<close>

text \<open>
  An entry of the uploaded archive, and a rule group of the request (\<^verbatim>\<open>id\<close> is \<open>gid\<close>). A
  group whose \<^verbatim>\<open>rules\<close> is missing or not an array is skipped like one with no rules, so
  \<open>rules\<close> is a list.
\<close>

record entry =
  entryName :: string
  isDirectory :: bool

record ruleGroup =
  gid :: string
  scope :: "string option"
  scopeValue :: "string option"
  exclude :: bool
  rules :: "rule list"

text \<open>The groups of a request: the rule groups, or else one global group of the loose rules.\<close>

definition normalizeGroups :: "ruleGroup list \<Rightarrow> rule list \<Rightarrow> ruleGroup list" where
  "normalizeGroups ruleGroups looseRules =
     (if ruleGroups \<noteq> [] then ruleGroups
      else if looseRules \<noteq> [] then
        [\<lparr>gid = ''default'', scope = Some ''global'', scopeValue = None, exclude = False,
          rules = looseRules\<rparr>]
      else [])"

definition matchScope :: "string \<Rightarrow> string option \<Rightarrow> string option \<Rightarrow> bool \<Rightarrow> bool \<Rightarrow> bool" where
  "matchScope name scope' scopeValue' isDirectory' exclude' =
     (if strOr scope' [] = [] then True
      else if scope' = Some ''global'' then \<not> isDirectory'
      else if scope' = Some ''folders'' then isDirectory'
      else if scope' = Some ''extension'' then
        (if isDirectory' then False
         else
           (let ext = extname name;
                v = strOr scopeValue' [];
                targetExt = (if startsWith v ''.'' then v
                             else if v \<noteq> [] then ''.'' @ v else []);
                extensionMatches =
                  (if targetExt \<noteq> [] then toLowerCase ext = toLowerCase targetExt else True)
            in if exclude' then \<not> extensionMatches else extensionMatches))
      else if scope' = Some ''folder'' then
        (let normPath = normalizeSeparators name;
             v = normalizeSeparators (strOr scopeValue' [])
         in if v \<noteq> [] then startsWith normPath v else True)
      else True)"

text \<open>
  \<^verbatim>\<open>groupCounters\<close> is a plain object keyed by group id, so it has the properties of
  \<^verbatim>\<open>Object.prototype\<close> besides its own. The model keeps the own properties as a map.
  Under the key \<^verbatim>\<open>__proto__\<close> the object has an accessor: writing a number there does
  nothing, and reading gives the prototype, which is not \<^verbatim>\<open>undefined\<close> and counts as
  \<^verbatim>\<open>NaN\<close>. Under the other inherited names reading gives a function, again not
  \<^verbatim>\<open>undefined\<close> and \<^verbatim>\<open>NaN\<close> as a number, until a write makes an own property.
\<close>

definition objectPrototypeNames :: "string list" where
  "objectPrototypeNames =
     [''constructor'', ''__defineGetter__'', ''__defineSetter__'', ''hasOwnProperty'',
      ''__lookupGetter__'', ''__lookupSetter__'', ''isPrototypeOf'', ''propertyIsEnumerable'',
      ''toString'', ''valueOf'', ''__proto__'', ''toLocaleString'']"

text \<open>\<^verbatim>\<open>groupCounters[k] = v\<close>.\<close>

definition setCounter :: "(string \<rightharpoonup> jsNumber) \<Rightarrow> string \<Rightarrow> jsNumber \<Rightarrow> (string \<rightharpoonup> jsNumber)" where
  "setCounter counters k v = (if k = ''__proto__'' then counters else counters(k \<mapsto> v))"

definition initCounters :: "ruleGroup list \<Rightarrow> (string \<rightharpoonup> jsNumber)" where
  "initCounters groups = foldl (\<lambda>m g. setCounter m (gid g) (Index 0)) Map.empty groups"

text \<open>
  \<^verbatim>\<open>if (groupCounters[k] === undefined) groupCounters[k] = 0;\<close>
  \<^verbatim>\<open>const groupIndex = groupCounters[k]++;\<close>: the counters after it, and the index.
\<close>

definition nextIndex ::
  "(string \<rightharpoonup> jsNumber) \<Rightarrow> string \<Rightarrow> (string \<rightharpoonup> jsNumber) \<times> jsNumber" where
  "nextIndex counters k =
     (if k = ''__proto__'' then (counters, NaN)
      else case counters k of
             Some (Index c) \<Rightarrow> (counters(k \<mapsto> Index (Suc c)), Index c)
           | Some NaN \<Rightarrow> (counters(k \<mapsto> NaN), NaN)
           | None \<Rightarrow>
               if k \<in> set objectPrototypeNames then (counters(k \<mapsto> NaN), NaN)
               else (counters(k \<mapsto> Index 1), Index 0))"

text \<open>
  \<^verbatim>\<open>folderRenameMap\<close> is a \<^verbatim>\<open>Map\<close>: it is read in the order in which its keys were first
  set, and setting a key again keeps the key's place.
\<close>

fun mapSet :: "(string \<times> string) list \<Rightarrow> string \<Rightarrow> string \<Rightarrow> (string \<times> string) list" where
  "mapSet [] k v = [(k, v)]"
| "mapSet ((k', v') # m) k v = (if k' = k then (k, v) # m else (k', v') # mapSet m k v)"

text \<open>
  The state of one run: the counters, the folder map, and the calls of
  \<^verbatim>\<open>newZip.addFile\<close> so far, each as the name of the entry it is made for and the name it
  adds.
\<close>

record renameState =
  groupCounters :: "string \<rightharpoonup> jsNumber"
  folderRenameMap :: "(string \<times> string) list"
  newZip :: "(string \<times> string) list"

text \<open>Phase 1, the loop over the groups for one folder.\<close>

fun renameFolder ::
  "regexEngine \<Rightarrow> ruleGroup list \<Rightarrow> string \<Rightarrow> (string \<rightharpoonup> jsNumber) \<Rightarrow> string
     \<Rightarrow> (string \<rightharpoonup> jsNumber) \<times> string" where
  "renameFolder engine [] normalizedName counters workingFolderName =
     (counters, workingFolderName)"
| "renameFolder engine (g # groups) normalizedName counters workingFolderName =
     (if rules g = [] then
        renameFolder engine groups normalizedName counters workingFolderName
      else if matchScope normalizedName (scope g) (scopeValue g) True (exclude g)
      then
        (let (counters', groupIndex) = nextIndex counters (gid g) in
         renameFolder engine groups normalizedName counters'
           (applyRenamingRules engine workingFolderName groupIndex (rules g)))
      else renameFolder engine groups normalizedName counters workingFolderName)"

text \<open>The path of a directory entry without its one trailing slash.\<close>

definition dirPathOf :: "string \<Rightarrow> string" where
  "dirPathOf originalName =
     (let normalizedName = normalizeSeparators originalName in
      if endsWith normalizedName ''/'' then take (length normalizedName - 1) normalizedName
      else normalizedName)"

definition processDirectory ::
  "regexEngine \<Rightarrow> ruleGroup list \<Rightarrow> renameState \<Rightarrow> entry \<Rightarrow> renameState" where
  "processDirectory engine groups st e =
     (let originalName = entryName e;
          normalizedName = normalizeSeparators originalName;
          dirPath = dirPathOf originalName
      in case lastIndexOf dirPath slash of
           None \<Rightarrow> st\<lparr>newZip := newZip st @ [(originalName, dirPath @ ''/'')]\<rparr>
         | Some lastSlash \<Rightarrow>
             (let parentPath = take (lastSlash + 1) dirPath;
                  folderName = drop (lastSlash + 1) dirPath;
                  (counters, workingFolderName) =
                     renameFolder engine groups normalizedName (groupCounters st) folderName;
                  oldPath = dirPath @ ''/'';
                  newPath = parentPath @ workingFolderName @ ''/''
              in \<lparr>groupCounters = counters,
                  folderRenameMap = mapSet (folderRenameMap st) oldPath newPath,
                  newZip = newZip st @ [(originalName, newPath)]\<rparr>))"

text \<open>Phase 2: the first folder of the map that the file's path starts with replaces its
  prefix, and the loop stops there.\<close>

fun substituteFolder :: "(string \<times> string) list \<Rightarrow> string \<Rightarrow> string" where
  "substituteFolder [] normalizedName = normalizedName"
| "substituteFolder ((oldFolderPath, newFolderPath) # m) normalizedName =
     (if startsWith normalizedName oldFolderPath
      then replaceFirst normalizedName oldFolderPath newFolderPath
      else substituteFolder m normalizedName)"

fun renameFile ::
  "regexEngine \<Rightarrow> ruleGroup list \<Rightarrow> string \<Rightarrow> (string \<rightharpoonup> jsNumber) \<Rightarrow> string
     \<Rightarrow> (string \<rightharpoonup> jsNumber) \<times> string" where
  "renameFile engine [] normalizedName counters workingName = (counters, workingName)"
| "renameFile engine (g # groups) normalizedName counters workingName =
     (if rules g = [] then renameFile engine groups normalizedName counters workingName
      else if matchScope normalizedName (scope g) (scopeValue g) False (exclude g)
      then
        (let (counters', groupIndex) = nextIndex counters (gid g);
             renamed = applyRenamingRules engine workingName groupIndex (rules g)
         in renameFile engine groups normalizedName counters'
              (parseName renamed @ parseExt renamed))
      else renameFile engine groups normalizedName counters workingName)"

definition safeDirOf :: "string \<Rightarrow> string" where
  "safeDirOf dir =
     (let safeDir = join slash (filter (\<lambda>p. p \<noteq> [] \<and> p \<noteq> ''..'' \<and> p \<noteq> ''.'')
                                   (split slash dir))
      in if safeDir = ''.'' then [] else safeDir)"

definition processFile ::
  "regexEngine \<Rightarrow> ruleGroup list \<Rightarrow> renameState \<Rightarrow> entry \<Rightarrow> renameState" where
  "processFile engine groups st e =
     (let originalName = entryName e;
          normalizedName =
            substituteFolder (folderRenameMap st) (normalizeSeparators originalName);
          dir = dirname normalizedName;
          (counters, workingName) =
             renameFile engine groups normalizedName (groupCounters st)
               (basename normalizedName);
          safeDir = safeDirOf dir;
          finalPath = (if safeDir \<noteq> [] then safeDir @ ''/'' @ workingName else workingName)
      in st\<lparr>groupCounters := counters,
            newZip := newZip st @ [(originalName, normalizeSeparators finalPath)]\<rparr>)"

text \<open>One run: the counters at zero, every directory, then every file.\<close>

definition directoryPhase ::
  "regexEngine \<Rightarrow> ruleGroup list \<Rightarrow> entry list \<Rightarrow> renameState" where
  "directoryPhase engine groups allEntries =
     foldl (processDirectory engine groups)
       \<lparr>groupCounters = initCounters groups, folderRenameMap = [], newZip = []\<rparr>
       (filter isDirectory allEntries)"

definition processEntries ::
  "regexEngine \<Rightarrow> ruleGroup list \<Rightarrow> entry list \<Rightarrow> renameState" where
  "processEntries engine groups allEntries =
     foldl (processFile engine groups)
       (directoryPhase engine groups allEntries)
       (filter (\<lambda>e. \<not> isDirectory e) allEntries)"

text \<open>Entries and groups, to write examples down.\<close>

definition fileEntry :: "string \<Rightarrow> entry" where
  "fileEntry p = \<lparr>entryName = p, isDirectory = False\<rparr>"

definition dirEntry :: "string \<Rightarrow> entry" where
  "dirEntry p = \<lparr>entryName = p, isDirectory = True\<rparr>"

definition groupOf :: "string \<Rightarrow> string \<Rightarrow> string option \<Rightarrow> rule list \<Rightarrow> ruleGroup" where
  "groupOf i sc v rs = \<lparr>gid = i, scope = Some sc, scopeValue = v, exclude = False, rules = rs\<rparr>"

text \<open>
  What the statements about the counters count. A group is applied to an entry when it has
  at least one rule and its scope matches (a group without rules is passed over before its
  scope is looked at); \<open>matchCount\<close> is the number of groups of a given id that are
  applied to an entry. A top-level directory is never offered to the groups; a file is
  offered under the path the folder map gave it.
\<close>

definition groupMatches :: "string \<Rightarrow> bool \<Rightarrow> ruleGroup \<Rightarrow> bool" where
  "groupMatches name isDir g =
     (rules g \<noteq> [] \<and> matchScope name (scope g) (scopeValue g) isDir (exclude g))"

definition matchCount :: "string \<Rightarrow> string \<Rightarrow> bool \<Rightarrow> ruleGroup list \<Rightarrow> nat" where
  "matchCount i name isDir groups =
     length (filter (\<lambda>g. gid g = i \<and> groupMatches name isDir g) groups)"

definition directoryMatches :: "string \<Rightarrow> ruleGroup list \<Rightarrow> entry \<Rightarrow> nat" where
  "directoryMatches i groups e =
     (case lastIndexOf (dirPathOf (entryName e)) slash of
        None \<Rightarrow> 0
      | Some lastSlash \<Rightarrow> matchCount i (normalizeSeparators (entryName e)) True groups)"

definition fileMatches ::
  "string \<Rightarrow> ruleGroup list \<Rightarrow> (string \<times> string) list \<Rightarrow> entry \<Rightarrow> nat" where
  "fileMatches i groups m e =
     matchCount i (substituteFolder m (normalizeSeparators (entryName e))) False groups"

text \<open>
  The names of a run written without the counter object, to compare the engine with. The
  index of an application is the number of applications of groups of the same id before
  it: \<open>earlier\<close> counts those to the entries before this one, \<open>seen\<close> are the groups
  already passed for this entry. (As in the two loops of the source, the name of a file
  goes through \<^verbatim>\<open>path.parse\<close> after each group and the name of a folder does not.)
\<close>

fun renameByCount ::
  "regexEngine \<Rightarrow> bool \<Rightarrow> (string \<Rightarrow> nat) \<Rightarrow> ruleGroup list \<Rightarrow> ruleGroup list \<Rightarrow> string
     \<Rightarrow> string \<Rightarrow> string" where
  "renameByCount engine isDir earlier seen [] name w = w"
| "renameByCount engine isDir earlier seen (g # gs) name w =
     (if groupMatches name isDir g
      then (let renamed = applyRenamingRules engine w
                            (Index (earlier (gid g) + matchCount (gid g) name isDir seen))
                            (rules g)
            in renameByCount engine isDir earlier (seen @ [g]) gs name
                 (if isDir then renamed else parseName renamed @ parseExt renamed))
      else renameByCount engine isDir earlier (seen @ [g]) gs name w)"

definition directoryOutput ::
  "regexEngine \<Rightarrow> ruleGroup list \<Rightarrow> entry list \<Rightarrow> entry \<Rightarrow> string \<times> string" where
  "directoryOutput engine groups prior e =
     (let dirPath = dirPathOf (entryName e) in
      case lastIndexOf dirPath slash of
        None \<Rightarrow> (entryName e, dirPath @ ''/'')
      | Some lastSlash \<Rightarrow>
          (entryName e,
           take (lastSlash + 1) dirPath
             @ renameByCount engine True
                 (\<lambda>i. sum_list (map (directoryMatches i groups) prior)) [] groups
                 (normalizeSeparators (entryName e)) (drop (lastSlash + 1) dirPath)
             @ ''/''))"

definition fileOutput ::
  "regexEngine \<Rightarrow> ruleGroup list \<Rightarrow> (string \<times> string) list \<Rightarrow> entry list \<Rightarrow> entry list
     \<Rightarrow> entry \<Rightarrow> string \<times> string" where
  "fileOutput engine groups m dirs prior e =
     (let normalizedName = substituteFolder m (normalizeSeparators (entryName e));
          workingName =
            renameByCount engine False
              (\<lambda>i. sum_list (map (directoryMatches i groups) dirs)
                    + sum_list (map (fileMatches i groups m) prior))
              [] groups normalizedName (basename normalizedName);
          safeDir = safeDirOf (dirname normalizedName)
      in (entryName e,
          normalizeSeparators
            (if safeDir \<noteq> [] then safeDir @ ''/'' @ workingName else workingName)))"

text \<open>The counters of the groups' ids are the given counts.\<close>

definition countersAre ::
  "(string \<rightharpoonup> jsNumber) \<Rightarrow> ruleGroup list \<Rightarrow> (string \<Rightarrow> nat) \<Rightarrow> bool" where
  "countersAre cs groups count = (\<forall>g \<in> set groups. cs (gid g) = Some (Index (count (gid g))))"

text \<open>A list taken through a function that also sees the elements before each one.\<close>

fun withEarlier :: "('a list \<Rightarrow> 'a \<Rightarrow> 'b) \<Rightarrow> 'a list \<Rightarrow> 'a list \<Rightarrow> 'b list" where
  "withEarlier f prior [] = []"
| "withEarlier f prior (x # xs) = f prior x # withEarlier f (prior @ [x]) xs"

text \<open>
  Paths that the engine has nothing to repair in: no backslash; a directory ends with a
  slash and has no dollar sign; a file has no empty segment and no segment \<^verbatim>\<open>.\<close> or
  \<^verbatim>\<open>..\<close>.
\<close>

definition cleanSegments :: "string \<Rightarrow> bool" where
  "cleanSegments p = (\<forall>s \<in> set (split slash p). s \<noteq> [] \<and> s \<noteq> ''.'' \<and> s \<noteq> ''..'')"

definition cleanEntry :: "entry \<Rightarrow> bool" where
  "cleanEntry e =
     (backslash \<notin> set (entryName e) \<and>
      (if isDirectory e then endsWith (entryName e) ''/'' \<and> dollar \<notin> set (entryName e)
       else cleanSegments (entryName e)))"

definition identityMap :: "(string \<times> string) list \<Rightarrow> bool" where
  "identityMap m = (\<forall>(old, new) \<in> set m. old = new \<and> dollar \<notin> set old)"

section \<open>The archive analyzer\<close>

text \<open>
  A file of the listing the analyzer reads (\<^verbatim>\<open>isDirectory\<close> is \<open>isDir\<close> here; \<^verbatim>\<open>size\<close>
  is read by the statistics only, which are not part of this model, as the time stamp is
  not).
\<close>

record archiveFile =
  originalName :: string
  isDir :: bool



record unicodeWarning =
  uwPath :: string
  uwIssue :: string
  uwDetails :: string

record duplicateWarning =
  dupDirectory :: string
  dupFilename :: string
  dupCount :: nat
  dupPaths :: "string list"












text \<open>\<^verbatim>\<open>[...new Set(xs)]\<close>: each value once, at its first place.\<close>

fun uniqueFirst :: "'a list \<Rightarrow> 'a list" where
  "uniqueFirst [] = []"
| "uniqueFirst (x # xs) = x # filter (\<lambda>y. y \<noteq> x) (uniqueFirst xs)"


text \<open>
  The Unicode services of the platform are parameters: the two normal forms and the
  round trip through UTF-8, each giving \<^term>\<open>None\<close> where the call throws.
\<close>

record unicodePlatform =
  normalizeNFC :: "string \<Rightarrow> string option"
  normalizeNFD :: "string \<Rightarrow> string option"
  utf8RoundTrip :: "string \<Rightarrow> string option"

definition nfcNfdMismatch :: "string \<Rightarrow> unicodeWarning" where
  "nfcNfdMismatch filename =
     \<lparr>uwPath = filename, uwIssue = ''nfc_nfd_mismatch'',
      uwDetails = ''Filename uses NFD normalization, may cause issues on Windows/Linux''\<rparr>"

definition invalidSequence :: "string \<Rightarrow> unicodeWarning" where
  "invalidSequence filename =
     \<lparr>uwPath = filename, uwIssue = ''invalid_sequence'',
      uwDetails = ''Invalid UTF-8 encoding detected''\<rparr>"

text \<open>The \<^verbatim>\<open>try\<close> block and its \<^verbatim>\<open>catch\<close>: what the round trip returns is not looked
  at.\<close>

definition checkUnicode ::
  "unicodePlatform \<Rightarrow> archiveFile \<Rightarrow> unicodeWarning list \<Rightarrow> unicodeWarning list" where
  "checkUnicode pf file ws =
     (let filename = originalName file in
      case normalizeNFC pf filename of
        None \<Rightarrow> ws @ [invalidSequence filename]
      | Some nfc \<Rightarrow>
          (case normalizeNFD pf filename of
             None \<Rightarrow> ws @ [invalidSequence filename]
           | Some nfd \<Rightarrow>
               (let ws' = (if nfc \<noteq> nfd \<and> filename \<noteq> nfc
                           then ws @ [nfcNfdMismatch filename] else ws)
                in case utf8RoundTrip pf filename of
                     None \<Rightarrow> ws' @ [invalidSequence filename]
                   | Some decoded \<Rightarrow> ws')))"

text \<open>A \<^verbatim>\<open>Map\<close> from a key to a list, read in the order in which the keys were first
  set: \<open>mapPush\<close> is \<^verbatim>\<open>if (!m.has(k)) m.set(k, []); m.get(k).push(v)\<close>.\<close>

fun mapPush :: "('k \<times> 'v list) list \<Rightarrow> 'k \<Rightarrow> 'v \<Rightarrow> ('k \<times> 'v list) list" where
  "mapPush [] k v = [(k, [v])]"
| "mapPush ((k', vs) # m) k v =
     (if k' = k then (k', vs @ [v]) # m else (k', vs) # mapPush m k v)"

text \<open>The first piece of \<^verbatim>\<open>key.split('::')\<close>.\<close>

fun firstPiece :: "string \<Rightarrow> string \<Rightarrow> string" where
  "firstPiece sep [] = []"
| "firstPiece sep (c # cs) = (if startsWith (c # cs) sep then [] else c # firstPiece sep cs)"

definition duplicateKey :: "archiveFile \<Rightarrow> string" where
  "duplicateKey file =
     dirname (originalName file) @ ''::'' @ toLowerCase (basename (originalName file))"

definition duplicateStep ::
  "(string \<times> string list) list \<Rightarrow> archiveFile \<Rightarrow> (string \<times> string list) list" where
  "duplicateStep dirMap file =
     (if isDir file then dirMap else mapPush dirMap (duplicateKey file) (originalName file))"

definition duplicateMap :: "archiveFile list \<Rightarrow> (string \<times> string list) list" where
  "duplicateMap files = foldl duplicateStep [] files"

text \<open>The group of a key: the paths of the files with that key, in listing order.\<close>

definition groupPaths :: "archiveFile list \<Rightarrow> string \<Rightarrow> string list" where
  "groupPaths files k =
     map originalName (filter (\<lambda>f. \<not> isDir f \<and> duplicateKey f = k) files)"

definition detectDuplicates :: "archiveFile list \<Rightarrow> duplicateWarning list" where
  "detectDuplicates files =
     concat (map (\<lambda>(key, paths).
        if length paths > 1
        then [\<lparr>dupDirectory = strOr (Some (firstPiece ''::'' key)) ''/'',
                dupFilename = basename (hd paths),
                dupCount = length paths,
                dupPaths = take 10 paths\<rparr>]
        else []) (duplicateMap files))"










text \<open>Files, and a platform that changes nothing, to write examples down.\<close>

definition plainFile :: "string \<Rightarrow> archiveFile" where
  "plainFile p = \<lparr>originalName = p, isDir = False\<rparr>"

definition identityPlatform :: unicodePlatform where
  "identityPlatform = \<lparr>normalizeNFC = Some, normalizeNFD = Some, utf8RoundTrip = Some\<rparr>"

text \<open>A platform whose round trip through UTF-8 does not give back the code unit 255, which
  stands here for a code unit that has no encoding of its own (an unpaired surrogate).\<close>

definition lossyPlatform :: unicodePlatform where
  "lossyPlatform =
     \<lparr>normalizeNFC = Some, normalizeNFD = Some,
      utf8RoundTrip = (\<lambda>s. Some (map (\<lambda>c. if c = CHR 0xFF then CHR ''?'' else c) s))\<rparr>"

section \<open>Properties of the rule evaluator\<close>

lemma applyRules_foldl:
  "applyRules engine index rs s = foldl (\<lambda>stem r. applyRule engine index r stem) s rs"
  by (induction rs arbitrary: s) simp_all

text \<open>
  C10. For every input name, index and rule list, \<open>applyRenamingRules\<close> returns the stem,
  taken through the rules in order, followed by the extension of the input name as
  \<^verbatim>\<open>path.extname\<close> gave it: no rule reads or writes the extension, and a rule whose type
  has no case (such as \<^verbatim>\<open>pattern\<close>) changes nothing at all.
\<close>

theorem applyRenamingRules_keeps_extension:
  "applyRenamingRules engine name index rs =
     foldl (\<lambda>stem r. applyRule engine index r stem)
       (basenameSuffix name (extname name)) rs @ extname name
   \<and> endsWith (applyRenamingRules engine name index rs) (extname name)
   \<and> (rtype r \<notin> {''replace'', ''regex'', ''trim'', ''normalize_space'', ''lowercase'',
         ''uppercase'', ''prefix'', ''suffix'', ''remove_special'', ''kebab_case'',
         ''numbering''}
        \<longrightarrow> applyRenamingRules engine name index (r # rs) =
            applyRenamingRules engine name index rs)"
proof -
  have unknown: "applyRule engine index r s = s"
    if "rtype r \<notin> {''replace'', ''regex'', ''trim'', ''normalize_space'', ''lowercase'',
         ''uppercase'', ''prefix'', ''suffix'', ''remove_special'', ''kebab_case'',
         ''numbering''}" for s
    using that unfolding applyRule_def by simp
  show ?thesis
    by (simp add: applyRenamingRules_def Let_def applyRules_foldl endsWith_def unknown)
qed

theorem applyRenamingRules_keeps_extension_witness:
  "applyRenamingRules rejectAll ''Report.PDF'' (Index 4)
      [(ruleOfType ''pattern'')\<lparr>rpattern := Some ''{name}''\<rparr>, ruleOfType ''lowercase'']
     = ''report.PDF''
   \<and> applyRenamingRules rejectAll ''Report.PDF'' (Index 4) [ruleOfType ''lowercase'']
       = ''report.PDF''"
proof -
  have known: "rtype ((ruleOfType ''pattern'')\<lparr>rpattern := Some ''{name}''\<rparr>)
      \<notin> {''replace'', ''regex'', ''trim'', ''normalize_space'', ''lowercase'',
         ''uppercase'', ''prefix'', ''suffix'', ''remove_special'', ''kebab_case'',
         ''numbering''}"
    by (simp add: ruleOfType_def)
  have low: "applyRenamingRules rejectAll ''Report.PDF'' (Index 4) [ruleOfType ''lowercase'']
      = ''report.PDF''"
    by code_simp
  from applyRenamingRules_keeps_extension
         [of rejectAll "''Report.PDF''" "Index 4" "[ruleOfType ''lowercase'']"
             "(ruleOfType ''pattern'')\<lparr>rpattern := Some ''{name}''\<rparr>"]
       known low
  show ?thesis by simp
qed

text \<open>
  C4. The entry \<^verbatim>\<open>a.TXT\<close> with one group of scope \<^verbatim>\<open>extension\<close>, value \<^verbatim>\<open>.txt\<close> and the
  rule \<^verbatim>\<open>lowercase\<close>: the scope matches without regard to case and the group's counter
  goes to one, the rule lower-cases the stem only, and the entry is written as \<^verbatim>\<open>a.TXT\<close>.
\<close>

theorem extension_scope_lowercase_example:
  "matchScope ''a.TXT'' (Some ''extension'') (Some ''.txt'') False False
   \<and> newZip (processEntries engine
               [groupOf ''g1'' ''extension'' (Some ''.txt'') [ruleOfType ''lowercase'']]
               [fileEntry ''a.TXT''])
       = [(''a.TXT'', ''a.TXT'')]
   \<and> groupCounters (processEntries engine
               [groupOf ''g1'' ''extension'' (Some ''.txt'') [ruleOfType ''lowercase'']]
               [fileEntry ''a.TXT'']) ''g1''
       = Some (Index 1)"
  by code_simp

theorem extension_scope_lowercase_counterexample:
  "newZip (processEntries rejectAll
             [groupOf ''g1'' ''extension'' (Some ''.txt'') [ruleOfType ''lowercase'']]
             [fileEntry ''a.TXT''])
     \<noteq> [(''a.TXT'', ''a.txt'')]"
  by code_simp

lemma numbering_as_specified:
  assumes "rtype r = ''numbering''"
    and "rstart r \<noteq> Some 0" and "rpadding r \<noteq> Some 0" and "rseparator r \<noteq> Some []"
  shows "applyRule engine (Index index) r stem =
           (let n = int index + (case rstart r of None \<Rightarrow> 1 | Some s \<Rightarrow> s);
                width = (case rpadding r of None \<Rightarrow> 1 | Some p \<Rightarrow> p);
                sep = (case rseparator r of None \<Rightarrow> ''-'' | Some t \<Rightarrow> t);
                num = replicate (nat width - length (String n)) (CHR ''0'') @ String n
            in if rposition r = Some ''start'' then num @ sep @ stem else stem @ sep @ num)"
    and "length (numberText (Index index) r)
           = max (nat (case rpadding r of None \<Rightarrow> 1 | Some p \<Rightarrow> p))
                 (length (String (int index + (case rstart r of None \<Rightarrow> 1 | Some s \<Rightarrow> s))))"
  using assms
  by (auto simp: applyRule_def numberText_def padStart_def numOr_def strOr_def Let_def
           split: option.splits)

text \<open>
  C5. A \<^verbatim>\<open>numbering\<close> rule with \<^verbatim>\<open>start: 0\<close> on the stem \<^verbatim>\<open>a\<close> at index 0 writes
  \<^verbatim>\<open>a-1\<close>, not \<^verbatim>\<open>a-0\<close>: the zero is taken for a missing field. Likewise an empty
  separator is replaced by the hyphen.
\<close>

theorem numbering_start_zero:
  "applyRenamingRules rejectAll ''a'' (Index 0)
      [(ruleOfType ''numbering'')\<lparr>rstart := Some 0\<rparr>]
     = ''a-1''
   \<and> applyRenamingRules rejectAll ''a'' (Index 0)
        [(ruleOfType ''numbering'')\<lparr>rstart := Some 5, rseparator := Some []\<rparr>]
     = ''a-5''"
  by code_simp

section \<open>Properties of the rename engine\<close>

subsection \<open>Counters\<close>

lemma nextIndex_Index:
  "k \<noteq> ''__proto__'' \<Longrightarrow> counters k = Some (Index c) \<Longrightarrow>
     nextIndex counters k = (counters(k \<mapsto> Index (Suc c)), Index c)"
  by (simp add: nextIndex_def)

lemma nextIndex_other:
  "i \<noteq> k \<Longrightarrow> fst (nextIndex counters k) i = counters i"
  by (auto simp: nextIndex_def split: option.splits jsNumber.splits)

lemma matchCount_snoc:
  "matchCount i name d (seen @ [g]) =
     matchCount i name d seen + (if gid g = i \<and> groupMatches name d g then 1 else 0)"
  by (simp add: matchCount_def)

lemma matchCount_Cons:
  "matchCount i name d (g # gs) =
     (if gid g = i \<and> groupMatches name d g then 1 else 0) + matchCount i name d gs"
  by (simp add: matchCount_def)

lemma renameFolder_counter:
  "i \<noteq> ''__proto__'' \<Longrightarrow> cs i = Some (Index c) \<Longrightarrow>
     fst (renameFolder engine gs name cs w) i = Some (Index (c + matchCount i name True gs))"
proof (induction gs arbitrary: cs w c)
  case Nil
  then show ?case by (simp add: matchCount_def)
next
  case (Cons g gs)
  show ?case
  proof (cases "groupMatches name True g")
    case False
    from Cons.IH[of cs c, OF Cons.prems] show ?thesis
      using False by (auto simp: matchCount_Cons groupMatches_def)
  next
    case True
    obtain cs' idx where n: "nextIndex cs (gid g) = (cs', idx)" by (cases "nextIndex cs (gid g)")
    have step: "renameFolder engine (g # gs) name cs w
                  = renameFolder engine gs name cs' (applyRenamingRules engine w idx (rules g))"
      using True n by (simp add: groupMatches_def)
    show ?thesis
    proof (cases "gid g = i")
      case True
      then have "cs' i = Some (Index (Suc c))"
        using n Cons.prems by (auto simp: nextIndex_Index)
      from Cons.IH[of cs' "Suc c", OF Cons.prems(1) this] show ?thesis
        unfolding step using \<open>groupMatches name True g\<close> True by (simp add: matchCount_Cons)
    next
      case False
      then have "cs' i = Some (Index c)"
        using n Cons.prems nextIndex_other[of i "gid g" cs] by simp
      from Cons.IH[of cs' c, OF Cons.prems(1) this] show ?thesis
        unfolding step using False by (simp add: matchCount_Cons)
    qed
  qed
qed

lemma renameFile_counter:
  "i \<noteq> ''__proto__'' \<Longrightarrow> cs i = Some (Index c) \<Longrightarrow>
     fst (renameFile engine gs name cs w) i = Some (Index (c + matchCount i name False gs))"
proof (induction gs arbitrary: cs w c)
  case Nil
  then show ?case by (simp add: matchCount_def)
next
  case (Cons g gs)
  show ?case
  proof (cases "groupMatches name False g")
    case False
    from Cons.IH[of cs c, OF Cons.prems] show ?thesis
      using False by (auto simp: matchCount_Cons groupMatches_def)
  next
    case True
    obtain cs' idx where n: "nextIndex cs (gid g) = (cs', idx)" by (cases "nextIndex cs (gid g)")
    have step: "renameFile engine (g # gs) name cs w
                  = renameFile engine gs name cs'
                      (parseName (applyRenamingRules engine w idx (rules g))
                         @ parseExt (applyRenamingRules engine w idx (rules g)))"
      using True n by (simp add: groupMatches_def Let_def)
    show ?thesis
    proof (cases "gid g = i")
      case True
      then have "cs' i = Some (Index (Suc c))"
        using n Cons.prems by (auto simp: nextIndex_Index)
      from Cons.IH[of cs' "Suc c", OF Cons.prems(1) this] show ?thesis
        unfolding step using \<open>groupMatches name False g\<close> True by (simp add: matchCount_Cons)
    next
      case False
      then have "cs' i = Some (Index c)"
        using n Cons.prems nextIndex_other[of i "gid g" cs] by simp
      from Cons.IH[of cs' c, OF Cons.prems(1) this] show ?thesis
        unfolding step using False by (simp add: matchCount_Cons)
    qed
  qed
qed

lemma renameFolder_name:
  assumes "''__proto__'' \<notin> gid ` set groups" "set gs \<subseteq> set groups"
    and "countersAre cs groups (\<lambda>i. earlier i + matchCount i name True seen)"
  shows "snd (renameFolder engine gs name cs w) = renameByCount engine True earlier seen gs name w"
  using assms(2,3)
proof (induction gs arbitrary: cs w seen)
  case Nil
  show ?case by simp
next
  case (Cons g gs)
  have g: "g \<in> set groups" and gs: "set gs \<subseteq> set groups" using Cons.prems(1) by auto
  have np: "gid g \<noteq> ''__proto__''" using g assms(1) by (metis imageI)
  have cg: "cs (gid g) = Some (Index (earlier (gid g) + matchCount (gid g) name True seen))"
    using Cons.prems(2) g by (simp add: countersAre_def)
  show ?case
  proof (cases "groupMatches name True g")
    case False
    have "countersAre cs groups (\<lambda>i. earlier i + matchCount i name True (seen @ [g]))"
      using Cons.prems(2) False by (simp add: countersAre_def matchCount_snoc)
    from Cons.IH[OF gs this, of w] show ?thesis using False by (auto simp: groupMatches_def)
  next
    case True
    let ?c = "earlier (gid g) + matchCount (gid g) name True seen"
    let ?cs' = "cs(gid g \<mapsto> Index (Suc ?c))"
    have n: "nextIndex cs (gid g) = (?cs', Index ?c)" using np cg by (rule nextIndex_Index)
    have inv: "countersAre ?cs' groups (\<lambda>i. earlier i + matchCount i name True (seen @ [g]))"
      using Cons.prems(2) True by (auto simp: countersAre_def matchCount_snoc)
    have step: "renameFolder engine (g # gs) name cs w
                  = renameFolder engine gs name ?cs' (applyRenamingRules engine w (Index ?c) (rules g))"
      using True n by (simp add: groupMatches_def)
    have rb: "renameByCount engine True earlier seen (g # gs) name w
                = renameByCount engine True earlier (seen @ [g]) gs name
                    (applyRenamingRules engine w (Index ?c) (rules g))"
      using True by (simp add: Let_def)
    show ?thesis unfolding step rb by (rule Cons.IH[OF gs inv])
  qed
qed

lemma renameFile_name:
  assumes "''__proto__'' \<notin> gid ` set groups" "set gs \<subseteq> set groups"
    and "countersAre cs groups (\<lambda>i. earlier i + matchCount i name False seen)"
  shows "snd (renameFile engine gs name cs w) = renameByCount engine False earlier seen gs name w"
  using assms(2,3)
proof (induction gs arbitrary: cs w seen)
  case Nil
  show ?case by simp
next
  case (Cons g gs)
  have g: "g \<in> set groups" and gs: "set gs \<subseteq> set groups" using Cons.prems(1) by auto
  have np: "gid g \<noteq> ''__proto__''" using g assms(1) by (metis imageI)
  have cg: "cs (gid g) = Some (Index (earlier (gid g) + matchCount (gid g) name False seen))"
    using Cons.prems(2) g by (simp add: countersAre_def)
  show ?case
  proof (cases "groupMatches name False g")
    case False
    have "countersAre cs groups (\<lambda>i. earlier i + matchCount i name False (seen @ [g]))"
      using Cons.prems(2) False by (simp add: countersAre_def matchCount_snoc)
    from Cons.IH[OF gs this, of w] show ?thesis using False by (auto simp: groupMatches_def)
  next
    case True
    let ?c = "earlier (gid g) + matchCount (gid g) name False seen"
    let ?cs' = "cs(gid g \<mapsto> Index (Suc ?c))"
    have n: "nextIndex cs (gid g) = (?cs', Index ?c)" using np cg by (rule nextIndex_Index)
    have inv: "countersAre ?cs' groups (\<lambda>i. earlier i + matchCount i name False (seen @ [g]))"
      using Cons.prems(2) True by (auto simp: countersAre_def matchCount_snoc)
    have step: "renameFile engine (g # gs) name cs w
                  = renameFile engine gs name ?cs'
                      (parseName (applyRenamingRules engine w (Index ?c) (rules g))
                         @ parseExt (applyRenamingRules engine w (Index ?c) (rules g)))"
      using True n by (simp add: groupMatches_def Let_def)
    have rb: "renameByCount engine False earlier seen (g # gs) name w
                = renameByCount engine False earlier (seen @ [g]) gs name
                    (parseName (applyRenamingRules engine w (Index ?c) (rules g))
                         @ parseExt (applyRenamingRules engine w (Index ?c) (rules g)))"
      using True by (simp add: Let_def)
    show ?thesis unfolding step rb by (rule Cons.IH[OF gs inv])
  qed
qed

lemma setCounter_lookup:
  "setCounter m k v i = (if i = k \<and> k \<noteq> ''__proto__'' then Some v else m i)"
  by (simp add: setCounter_def)

lemma initCounters_aux:
  "foldl (\<lambda>m g. setCounter m (gid g) (Index 0)) m0 groups i =
     (if i \<in> gid ` set groups \<and> i \<noteq> ''__proto__'' then Some (Index 0) else m0 i)"
  by (induction groups arbitrary: m0) (auto simp: setCounter_lookup)

lemma initCounters_lookup:
  "initCounters groups i =
     (if i \<in> gid ` set groups \<and> i \<noteq> ''__proto__'' then Some (Index 0) else None)"
  by (simp add: initCounters_def initCounters_aux)

lemma countersAre_I:
  "''__proto__'' \<notin> gid ` set groups \<Longrightarrow> countersAre cs groups count \<Longrightarrow>
   countersAre (fst (renameFolder engine groups name cs w)) groups
     (\<lambda>i. count i + matchCount i name True groups)"
  unfolding countersAre_def
  by (metis imageI renameFolder_counter)

lemma countersAre_file:
  "''__proto__'' \<notin> gid ` set groups \<Longrightarrow> countersAre cs groups count \<Longrightarrow>
   countersAre (fst (renameFile engine groups name cs w)) groups
     (\<lambda>i. count i + matchCount i name False groups)"
  unfolding countersAre_def
  by (metis imageI renameFile_counter)

lemma processDirectory_refines:
  assumes np: "''__proto__'' \<notin> gid ` set groups"
    and inv: "countersAre (groupCounters st) groups
                (\<lambda>i. sum_list (map (directoryMatches i groups) prior))"
  shows "newZip (processDirectory engine groups st e)
           = newZip st @ [directoryOutput engine groups prior e]"
    and "countersAre (groupCounters (processDirectory engine groups st e)) groups
           (\<lambda>i. sum_list (map (directoryMatches i groups) (prior @ [e])))"
proof -
  let ?n = "normalizeSeparators (entryName e)"
  let ?dp = "dirPathOf (entryName e)"
  let ?count = "\<lambda>i. sum_list (map (directoryMatches i groups) prior)"
  show "newZip (processDirectory engine groups st e)
           = newZip st @ [directoryOutput engine groups prior e]"
  proof (cases "lastIndexOf ?dp slash")
    case None
    then show ?thesis by (simp add: processDirectory_def directoryOutput_def Let_def)
  next
    case (Some k)
    have inv0: "countersAre (groupCounters st) groups (\<lambda>i. ?count i + matchCount i ?n True [])"
      using inv by (simp add: matchCount_def)
    have "snd (renameFolder engine groups ?n (groupCounters st) (drop (k + 1) ?dp))
            = renameByCount engine True ?count [] groups ?n (drop (k + 1) ?dp)"
      by (rule renameFolder_name[OF np subset_refl inv0])
    then show ?thesis using Some
      by (simp add: processDirectory_def directoryOutput_def Let_def case_prod_beta)
  qed
  show "countersAre (groupCounters (processDirectory engine groups st e)) groups
           (\<lambda>i. sum_list (map (directoryMatches i groups) (prior @ [e])))"
  proof (cases "lastIndexOf ?dp slash")
    case None
    then show ?thesis using inv
      by (simp add: processDirectory_def directoryMatches_def Let_def)
  next
    case (Some k)
    have "countersAre (fst (renameFolder engine groups ?n (groupCounters st) (drop (k + 1) ?dp)))
            groups (\<lambda>i. ?count i + matchCount i ?n True groups)"
      by (rule countersAre_I[OF np inv])
    then show ?thesis using Some
      by (simp add: processDirectory_def directoryMatches_def Let_def case_prod_beta)
  qed
qed

lemma foldl_processDirectory_refines:
  assumes np: "''__proto__'' \<notin> gid ` set groups"
  shows "countersAre (groupCounters st) groups
           (\<lambda>i. sum_list (map (directoryMatches i groups) prior)) \<Longrightarrow>
         newZip (foldl (processDirectory engine groups) st es)
           = newZip st @ withEarlier (directoryOutput engine groups) prior es
         \<and> countersAre (groupCounters (foldl (processDirectory engine groups) st es)) groups
             (\<lambda>i. sum_list (map (directoryMatches i groups) (prior @ es)))"
proof (induction es arbitrary: st prior)
  case Nil
  then show ?case by simp
next
  case (Cons e es)
  note step = processDirectory_refines[OF np Cons.prems, of engine e]
  from Cons.IH[OF step(2)] step(1) show ?case by simp
qed

lemma processFile_refines:
  assumes np: "''__proto__'' \<notin> gid ` set groups"
    and inv: "countersAre (groupCounters st) groups
                (\<lambda>i. sum_list (map (directoryMatches i groups) dirs)
                      + sum_list (map (fileMatches i groups (folderRenameMap st)) prior))"
  shows "newZip (processFile engine groups st e)
           = newZip st @ [fileOutput engine groups (folderRenameMap st) dirs prior e]"
    and "countersAre (groupCounters (processFile engine groups st e)) groups
           (\<lambda>i. sum_list (map (directoryMatches i groups) dirs)
                 + sum_list (map (fileMatches i groups (folderRenameMap st)) (prior @ [e])))"
    and "folderRenameMap (processFile engine groups st e) = folderRenameMap st"
proof -
  let ?n = "substituteFolder (folderRenameMap st) (normalizeSeparators (entryName e))"
  let ?count = "\<lambda>i. sum_list (map (directoryMatches i groups) dirs)
                      + sum_list (map (fileMatches i groups (folderRenameMap st)) prior)"
  have inv0: "countersAre (groupCounters st) groups (\<lambda>i. ?count i + matchCount i ?n False [])"
    using inv by (simp add: matchCount_def)
  have nm: "snd (renameFile engine groups ?n (groupCounters st) (basename ?n))
            = renameByCount engine False ?count [] groups ?n (basename ?n)"
    by (rule renameFile_name[OF np subset_refl inv0])
  show "newZip (processFile engine groups st e)
           = newZip st @ [fileOutput engine groups (folderRenameMap st) dirs prior e]"
    using nm by (simp add: processFile_def fileOutput_def Let_def case_prod_beta)
  have "countersAre (fst (renameFile engine groups ?n (groupCounters st) (basename ?n)))
            groups (\<lambda>i. ?count i + matchCount i ?n False groups)"
    by (rule countersAre_file[OF np inv])
  then show "countersAre (groupCounters (processFile engine groups st e)) groups
           (\<lambda>i. sum_list (map (directoryMatches i groups) dirs)
                 + sum_list (map (fileMatches i groups (folderRenameMap st)) (prior @ [e])))"
    by (simp add: processFile_def fileMatches_def Let_def add.assoc case_prod_beta)
  show "folderRenameMap (processFile engine groups st e) = folderRenameMap st"
    by (simp add: processFile_def Let_def case_prod_beta)
qed

lemma foldl_processFile_refines:
  assumes np: "''__proto__'' \<notin> gid ` set groups"
  shows "countersAre (groupCounters st) groups
           (\<lambda>i. sum_list (map (directoryMatches i groups) dirs)
                 + sum_list (map (fileMatches i groups (folderRenameMap st)) prior)) \<Longrightarrow>
         newZip (foldl (processFile engine groups) st es)
           = newZip st @ withEarlier (fileOutput engine groups (folderRenameMap st) dirs) prior es
         \<and> countersAre (groupCounters (foldl (processFile engine groups) st es)) groups
             (\<lambda>i. sum_list (map (directoryMatches i groups) dirs)
                   + sum_list (map (fileMatches i groups (folderRenameMap st)) (prior @ es)))"
proof (induction es arbitrary: st prior)
  case Nil
  then show ?case by simp
next
  case (Cons e es)
  note step = processFile_refines[OF np Cons.prems, of engine e]
  from Cons.IH[of "processFile engine groups st e" "prior @ [e]"] step
  show ?case by simp
qed

text \<open>
  C6 (as the code has it). For groups whose ids are other than \<^verbatim>\<open>__proto__\<close>: every
  counter is zero when the run starts; a group is applied to an entry when it has at least
  one rule, the entry is not a top-level directory and the group's scope matches it; each
  application is handed, as its index, the number of applications of groups of the same id
  before it in the run, directories first and then files, so that the names of the run are
  those of \<open>directoryOutput\<close> and \<open>fileOutput\<close>; and at the end the counter of an id is
  the number of applications of its groups to the directories plus that to the files.
\<close>

theorem group_counters_shared:
  assumes np: "''__proto__'' \<notin> gid ` set groups"
  shows "(\<forall>g \<in> set groups. initCounters groups (gid g) = Some (Index 0))
     \<and> newZip (processEntries engine groups allEntries)
         = withEarlier (directoryOutput engine groups) [] (filter isDirectory allEntries)
           @ withEarlier (fileOutput engine groups
                            (folderRenameMap (directoryPhase engine groups allEntries))
                            (filter isDirectory allEntries))
               [] (filter (\<lambda>e. \<not> isDirectory e) allEntries)
     \<and> (\<forall>g \<in> set groups.
          groupCounters (processEntries engine groups allEntries) (gid g)
            = Some (Index (sum_list (map (directoryMatches (gid g) groups)
                                       (filter isDirectory allEntries))
                           + sum_list (map (fileMatches (gid g) groups
                                              (folderRenameMap
                                                 (directoryPhase engine groups allEntries)))
                                         (filter (\<lambda>e. \<not> isDirectory e) allEntries)))))"
proof -
  let ?dirs = "filter isDirectory allEntries"
  let ?files = "filter (\<lambda>e. \<not> isDirectory e) allEntries"
  let ?st0 = "\<lparr>groupCounters = initCounters groups, folderRenameMap = [], newZip = []\<rparr>"
  let ?st1 = "directoryPhase engine groups allEntries"
  have init: "\<forall>g \<in> set groups. initCounters groups (gid g) = Some (Index 0)"
  proof
    fix g assume g: "g \<in> set groups"
    then have "gid g \<noteq> ''__proto__''" using np by (metis imageI)
    then show "initCounters groups (gid g) = Some (Index 0)"
      using g by (simp add: initCounters_lookup)
  qed
  then have inv0: "countersAre (groupCounters ?st0) groups
                     (\<lambda>i. sum_list (map (directoryMatches i groups) []))"
    by (simp add: countersAre_def)
  from foldl_processDirectory_refines[OF np inv0, of engine ?dirs]
  have d1: "newZip ?st1 = withEarlier (directoryOutput engine groups) [] ?dirs"
    and d2: "countersAre (groupCounters ?st1) groups
               (\<lambda>i. sum_list (map (directoryMatches i groups) ?dirs))"
    by (simp_all add: directoryPhase_def)
  from d2 have inv1: "countersAre (groupCounters ?st1) groups
           (\<lambda>i. sum_list (map (directoryMatches i groups) ?dirs)
                 + sum_list (map (fileMatches i groups (folderRenameMap ?st1)) []))"
    by simp
  from foldl_processFile_refines[OF np inv1, of engine ?files]
  have f1: "newZip (processEntries engine groups allEntries)
              = newZip ?st1 @ withEarlier (fileOutput engine groups (folderRenameMap ?st1) ?dirs) [] ?files"
    and f2: "countersAre (groupCounters (processEntries engine groups allEntries)) groups
             (\<lambda>i. sum_list (map (directoryMatches i groups) ?dirs)
                   + sum_list (map (fileMatches i groups (folderRenameMap ?st1)) ?files))"
    by (simp_all add: processEntries_def)
  show ?thesis using init f1 f2 by (simp add: d1 countersAre_def)
qed

theorem group_counters_shared_witness:
  "newZip (processEntries rejectAll
      [groupOf ''n'' ''folder'' (Some ''a/'') [ruleOfType ''numbering''],
       groupOf ''n'' ''global'' None [ruleOfType ''numbering'']]
      [dirEntry ''a/'', dirEntry ''a/b/'', fileEntry ''a/x.txt'', fileEntry ''a/b/y.txt''])
     = [(''a/'', ''a/''), (''a/b/'', ''a/b-1/''), (''a/x.txt'', ''a/x-2-3.txt''),
        (''a/b/y.txt'', ''a/b-1/y-4-5.txt'')]
   \<and> initCounters
        [groupOf ''n'' ''folder'' (Some ''a/'') [ruleOfType ''numbering''],
         groupOf ''n'' ''global'' None [ruleOfType ''numbering'']] ''n''
       = Some (Index 0)
   \<and> groupCounters (processEntries rejectAll
        [groupOf ''n'' ''folder'' (Some ''a/'') [ruleOfType ''numbering''],
         groupOf ''n'' ''global'' None [ruleOfType ''numbering'']]
        [dirEntry ''a/'', dirEntry ''a/b/'', fileEntry ''a/x.txt'', fileEntry ''a/b/y.txt''])
        ''n''
       = Some (Index 5)"
proof -
  let ?g = "groupOf ''n'' ''folder'' (Some ''a/'') [ruleOfType ''numbering'']"
  let ?h = "groupOf ''n'' ''global'' None [ruleOfType ''numbering'']"
  let ?E = "[dirEntry ''a/'', dirEntry ''a/b/'', fileEntry ''a/x.txt'', fileEntry ''a/b/y.txt'']"
  have np: "''__proto__'' \<notin> gid ` set [?g, ?h]" by (simp add: groupOf_def)
  have mem: "?g \<in> set [?g, ?h]" by simp
  have gid: "gid ?g = ''n''" by (simp add: groupOf_def)
  have names: "withEarlier (directoryOutput rejectAll [?g, ?h]) [] (filter isDirectory ?E)
           @ withEarlier (fileOutput rejectAll [?g, ?h]
                            (folderRenameMap (directoryPhase rejectAll [?g, ?h] ?E))
                            (filter isDirectory ?E))
               [] (filter (\<lambda>e. \<not> isDirectory e) ?E)
     = [(''a/'', ''a/''), (''a/b/'', ''a/b-1/''), (''a/x.txt'', ''a/x-2-3.txt''),
        (''a/b/y.txt'', ''a/b-1/y-4-5.txt'')]"
    by code_simp
  have total: "sum_list (map (directoryMatches ''n'' [?g, ?h]) (filter isDirectory ?E))
               + sum_list (map (fileMatches ''n'' [?g, ?h]
                                  (folderRenameMap (directoryPhase rejectAll [?g, ?h] ?E)))
                             (filter (\<lambda>e. \<not> isDirectory e) ?E)) = 5"
    by code_simp
  note T = group_counters_shared[OF np, where engine = rejectAll and allEntries = ?E]
  from T[THEN conjunct1] mem have z: "initCounters [?g, ?h] (gid ?g) = Some (Index 0)"
    by (rule bspec)
  from T[THEN conjunct2, THEN conjunct1]
  have a: "newZip (processEntries rejectAll [?g, ?h] ?E)
     = [(''a/'', ''a/''), (''a/b/'', ''a/b-1/''), (''a/x.txt'', ''a/x-2-3.txt''),
        (''a/b/y.txt'', ''a/b-1/y-4-5.txt'')]"
    by (simp only: names)
  from T[THEN conjunct2, THEN conjunct2] mem
  have "groupCounters (processEntries rejectAll [?g, ?h] ?E) (gid ?g)
          = Some (Index (sum_list (map (directoryMatches (gid ?g) [?g, ?h])
                                     (filter isDirectory ?E))
                         + sum_list (map (fileMatches (gid ?g) [?g, ?h]
                                            (folderRenameMap (directoryPhase rejectAll [?g, ?h] ?E)))
                                       (filter (\<lambda>e. \<not> isDirectory e) ?E))))"
    by (rule bspec)
  then have c: "groupCounters (processEntries rejectAll [?g, ?h] ?E) ''n'' = Some (Index 5)"
    by (simp only: gid total)
  from a z[unfolded gid] c show ?thesis by (intro conjI)
qed

theorem scope_matches_without_count_counterexample:
  "matchScope ''Photos/'' (Some ''folders'') None True False
   \<and> groupCounters (processEntries rejectAll
         [groupOf ''g1'' ''folders'' None [ruleOfType ''numbering'']]
         [dirEntry ''Photos/'']) ''g1''
       = Some (Index 0)
   \<and> matchScope ''a.txt'' (Some ''global'') None False False
   \<and> groupCounters (processEntries rejectAll
         [groupOf ''g2'' ''global'' None []]
         [fileEntry ''a.txt'']) ''g2''
       = Some (Index 0)"
  by code_simp

text \<open>The id left out above: its counter is never a count, and every index is \<^verbatim>\<open>NaN\<close>.\<close>

lemma proto_counter:
  "initCounters [groupOf ''__proto__'' ''global'' None [ruleOfType ''numbering'']] ''__proto__''
     = None
   \<and> newZip (processEntries rejectAll
               [groupOf ''__proto__'' ''global'' None [ruleOfType ''numbering'']]
               [fileEntry ''a.txt'', fileEntry ''b.txt''])
       = [(''a.txt'', ''a-NaN.txt''), (''b.txt'', ''b-NaN.txt'')]"
  by code_simp

subsection \<open>Top-level entries\<close>

lemma newZip_processDirectory:
  "\<exists>p. newZip (processDirectory engine groups st e) = newZip st @ [(entryName e, p)]"
  by (auto simp: processDirectory_def Let_def split: option.splits prod.splits)

lemma newZip_processFile:
  "\<exists>p. newZip (processFile engine groups st e) = newZip st @ [(entryName e, p)]"
  by (auto simp: processFile_def Let_def split: prod.splits)

lemma newZip_foldl_processDirectory:
  "set (newZip st) \<subseteq> set (newZip (foldl (processDirectory engine groups) st es))"
proof (induction es arbitrary: st)
  case Nil show ?case by simp
next
  case (Cons e es)
  obtain p where "newZip (processDirectory engine groups st e) = newZip st @ [(entryName e, p)]"
    using newZip_processDirectory by blast
  with Cons[of "processDirectory engine groups st e"] show ?case by auto
qed

lemma newZip_foldl_processFile:
  "set (newZip st) \<subseteq> set (newZip (foldl (processFile engine groups) st es))"
proof (induction es arbitrary: st)
  case Nil show ?case by simp
next
  case (Cons e es)
  obtain p where "newZip (processFile engine groups st e) = newZip st @ [(entryName e, p)]"
    using newZip_processFile by blast
  with Cons[of "processFile engine groups st e"] show ?case by auto
qed

lemma processDirectory_topLevel:
  "lastIndexOf (dirPathOf (entryName e)) slash = None \<Longrightarrow>
   processDirectory engine groups st e
     = st\<lparr>newZip := newZip st @ [(entryName e, dirPathOf (entryName e) @ ''/'')]\<rparr>"
  by (simp add: processDirectory_def Let_def)

lemma normalizeSeparators_id: "backslash \<notin> set n \<Longrightarrow> normalizeSeparators n = n"
  by (induction n) (auto simp: normalizeSeparators_def)

lemma dirPathOf_normalized:
  "backslash \<notin> set n \<Longrightarrow> endsWith n ''/'' \<Longrightarrow> dirPathOf n @ ''/'' = n"
proof -
  assume b: "backslash \<notin> set n" and e: "endsWith n ''/''"
  have nn: "normalizeSeparators n = n" using b by (rule normalizeSeparators_id)
  from e have "n \<noteq> []" "drop (length n - 1) n = ''/''" by (auto simp: endsWith_def)
  then have "take (length n - 1) n @ ''/'' = n"
    by (metis append_take_drop_id)
  then show ?thesis using e by (simp add: dirPathOf_def nn)
qed

text \<open>
  C1 (as the code has it). A top-level directory, one whose path without its trailing
  slash has no slash, is offered to no group: its step changes neither the counters nor
  the folder map and writes the directory under its own path with one trailing slash,
  which is the original path when that is written with slashes and ends with one.
\<close>

theorem top_level_directory_kept:
  assumes "e \<in> set allEntries" "isDirectory e" "lastIndexOf (dirPathOf (entryName e)) slash = None"
  shows "processDirectory engine groups st e
           = st\<lparr>newZip := newZip st @ [(entryName e, dirPathOf (entryName e) @ ''/'')]\<rparr>
       \<and> (entryName e, dirPathOf (entryName e) @ ''/'')
           \<in> set (newZip (processEntries engine groups allEntries))
       \<and> (backslash \<notin> set (entryName e) \<and> endsWith (entryName e) ''/''
            \<longrightarrow> dirPathOf (entryName e) @ ''/'' = entryName e)"
proof -
  from assms(1,2) have "e \<in> set (filter isDirectory allEntries)" by simp
  then obtain xs ys where split: "filter isDirectory allEntries = xs @ e # ys"
    by (meson split_list)
  define st1 where "st1 = foldl (processDirectory engine groups)
       \<lparr>groupCounters = initCounters groups, folderRenameMap = [], newZip = []\<rparr> xs"
  have "directoryPhase engine groups allEntries
          = foldl (processDirectory engine groups) (processDirectory engine groups st1 e) ys"
    by (simp add: directoryPhase_def split st1_def)
  moreover have "(entryName e, dirPathOf (entryName e) @ ''/'')
      \<in> set (newZip (processDirectory engine groups st1 e))"
    by (simp add: processDirectory_topLevel[OF assms(3)])
  ultimately have "(entryName e, dirPathOf (entryName e) @ ''/'')
      \<in> set (newZip (directoryPhase engine groups allEntries))"
    using newZip_foldl_processDirectory by fastforce
  then have "(entryName e, dirPathOf (entryName e) @ ''/'')
      \<in> set (newZip (processEntries engine groups allEntries))"
    unfolding processEntries_def using newZip_foldl_processFile by fastforce
  then show ?thesis
    using processDirectory_topLevel[OF assms(3)] dirPathOf_normalized by blast
qed

theorem top_level_directory_kept_witness:
  "(''Photos/'', ''Photos/'')
     \<in> set (newZip (processEntries rejectAll
                [groupOf ''g1'' ''folders'' None [(ruleOfType ''prefix'')\<lparr>rtext := Some ''new_''\<rparr>]]
                [dirEntry ''Photos/'', fileEntry ''Photos/img.jpg'']))
   \<and> processDirectory rejectAll
         [groupOf ''g1'' ''folders'' None [(ruleOfType ''prefix'')\<lparr>rtext := Some ''new_''\<rparr>]]
         \<lparr>groupCounters = Map.empty(''g1'' \<mapsto> Index 0), folderRenameMap = [], newZip = []\<rparr>
         (dirEntry ''Photos/'')
       = \<lparr>groupCounters = Map.empty(''g1'' \<mapsto> Index 0), folderRenameMap = [],
          newZip = [(''Photos/'', ''Photos/'')]\<rparr>
   \<and> dirPathOf ''Photos/'' @ ''/'' = ''Photos/''"
proof -
  let ?G = "[groupOf ''g1'' ''folders'' None [(ruleOfType ''prefix'')\<lparr>rtext := Some ''new_''\<rparr>]]"
  let ?st = "\<lparr>groupCounters = Map.empty(''g1'' \<mapsto> Index 0), folderRenameMap = [],
              newZip = []\<rparr>"
  have h1: "dirEntry ''Photos/'' \<in> set [dirEntry ''Photos/'', fileEntry ''Photos/img.jpg'']"
    by simp
  have h2: "isDirectory (dirEntry ''Photos/'')" by (simp add: dirEntry_def)
  have h3: "lastIndexOf (dirPathOf (entryName (dirEntry ''Photos/''))) slash = None"
    by code_simp
  have h4: "backslash \<notin> set ''Photos/'' \<and> endsWith ''Photos/'' ''/''" by code_simp
  have h5: "entryName (dirEntry ''Photos/'') = ''Photos/''" by (simp add: dirEntry_def)
  note T = top_level_directory_kept[OF h1 h2 h3, where engine = rejectAll and groups = ?G
             and st = ?st, unfolded h5]
  from T[THEN conjunct2, THEN conjunct2] h4
  have c: "dirPathOf ''Photos/'' @ ''/'' = ''Photos/''" by (rule mp)
  from T[THEN conjunct2, THEN conjunct1]
  have a: "(''Photos/'', ''Photos/'')
     \<in> set (newZip (processEntries rejectAll ?G
                [dirEntry ''Photos/'', fileEntry ''Photos/img.jpg'']))"
    by (simp only: c)
  from T[THEN conjunct1]
  have b: "processDirectory rejectAll ?G ?st (dirEntry ''Photos/'')
       = \<lparr>groupCounters = Map.empty(''g1'' \<mapsto> Index 0), folderRenameMap = [],
          newZip = [(''Photos/'', ''Photos/'')]\<rparr>"
    by (simp add: c)
  from a b c show ?thesis by (intro conjI)
qed

theorem top_level_file_renamed_counterexample:
  "lastIndexOf ''a.jpg'' slash = None
   \<and> matchScope ''a.jpg'' (Some ''global'') None False False
   \<and> newZip (processEntries rejectAll
               [groupOf ''g1'' ''global'' None [(ruleOfType ''prefix'')\<lparr>rtext := Some ''new_''\<rparr>]]
               [fileEntry ''a.jpg''])
       = [(''a.jpg'', ''new_a.jpg'')]"
  by code_simp

subsection \<open>Files under renamed folders\<close>

lemma getSubstitution_no_dollar:
  "dollar \<notin> set repl \<Longrightarrow> getSubstitution matched pre after repl = repl"
  by (induction matched pre after repl rule: getSubstitution.induct) auto

lemma replaceFirst_startsWith:
  "startsWith n old \<Longrightarrow>
     replaceFirst n old new = getSubstitution old [] (drop (length old) n) new @ drop (length old) n"
  by (cases n) (auto simp: replaceFirst_def startsWith_def)

lemma substituteFolder_find:
  "substituteFolder m n =
     (case find (\<lambda>(old, new). startsWith n old) m of
        None \<Rightarrow> n
      | Some (old, new) \<Rightarrow> replaceFirst n old new)"
  by (induction m n rule: substituteFolder.induct) auto

text \<open>
  C2 (as the code has it). The path of a file is rewritten with the first mapping, in the
  order in which the folders were recorded, whose old path the file's path starts with:
  that old path is replaced by the new one (here for a new path without dollar sign) and
  no other mapping is applied; without such a mapping the path stays.
\<close>

theorem substituteFolder_first_registered:
  "(find (\<lambda>(old, new). startsWith n old) m = Some (old, new) \<longrightarrow> dollar \<notin> set new \<longrightarrow>
      substituteFolder m n = new @ drop (length old) n)
   \<and> (find (\<lambda>(old, new). startsWith n old) m = None \<longrightarrow> substituteFolder m n = n)"
proof (intro conjI impI)
  assume f: "find (\<lambda>(old, new). startsWith n old) m = Some (old, new)" and d: "dollar \<notin> set new"
  from f have "startsWith n old" by (auto simp: find_Some_iff)
  then show "substituteFolder m n = new @ drop (length old) n"
    using f d by (simp add: substituteFolder_find replaceFirst_startsWith getSubstitution_no_dollar)
next
  assume "find (\<lambda>(old, new). startsWith n old) m = None"
  then show "substituteFolder m n = n" by (simp add: substituteFolder_find)
qed

theorem substituteFolder_first_registered_witness:
  "substituteFolder [(''a/b/'', ''a/new_b/''), (''a/b/c/'', ''a/b/new_c/'')] ''a/b/c/f.txt''
     = ''a/new_b/c/f.txt''
   \<and> substituteFolder [(''a/b/'', ''a/new_b/''), (''a/b/c/'', ''a/b/new_c/'')] ''z/f.txt''
     = ''z/f.txt''"
proof -
  let ?m = "[(''a/b/'', ''a/new_b/''), (''a/b/c/'', ''a/b/new_c/'')]"
  have f1: "find (\<lambda>(old, new). startsWith ''a/b/c/f.txt'' old) ?m = Some (''a/b/'', ''a/new_b/'')"
    by code_simp
  have d1: "dollar \<notin> set ''a/new_b/''" by code_simp
  have e1: "''a/new_b/'' @ drop (length ''a/b/'') ''a/b/c/f.txt'' = ''a/new_b/c/f.txt''"
    by simp
  have f2: "find (\<lambda>(old, new). startsWith ''z/f.txt'' old) ?m = None"
    by code_simp
  from substituteFolder_first_registered
         [where n = "''a/b/c/f.txt''" and m = ?m and old = "''a/b/''" and new = "''a/new_b/''"]
       f1 d1 e1
  have a: "substituteFolder ?m ''a/b/c/f.txt'' = ''a/new_b/c/f.txt''" by simp
  from substituteFolder_first_registered [where n = "''z/f.txt''" and m = ?m] f2
  have b: "substituteFolder ?m ''z/f.txt'' = ''z/f.txt''" by simp
  show ?thesis using a b by simp
qed

theorem longest_mapping_counterexample:
  "folderRenameMap (processEntries rejectAll
      [groupOf ''g1'' ''folders'' None [(ruleOfType ''prefix'')\<lparr>rtext := Some ''new_''\<rparr>]]
      [dirEntry ''a/b/'', dirEntry ''a/b/c/'', fileEntry ''a/b/c/f.txt''])
     = [(''a/b/'', ''a/new_b/''), (''a/b/c/'', ''a/b/new_c/'')]
   \<and> startsWith ''a/b/c/f.txt'' ''a/b/''
   \<and> startsWith ''a/b/c/f.txt'' ''a/b/c/''
   \<and> newZip (processEntries rejectAll
      [groupOf ''g1'' ''folders'' None [(ruleOfType ''prefix'')\<lparr>rtext := Some ''new_''\<rparr>]]
      [dirEntry ''a/b/'', dirEntry ''a/b/c/'', fileEntry ''a/b/c/f.txt''])
     = [(''a/b/'', ''a/new_b/''), (''a/b/c/'', ''a/b/new_c/''),
        (''a/b/c/f.txt'', ''a/new_b/c/f.txt'')]"
  by code_simp

subsection \<open>No groups\<close>

lemma split_not_Nil: "split d s \<noteq> []"
  by (induction s) (auto split: list.splits)

lemma join_Cons: "ys \<noteq> [] \<Longrightarrow> join d (x # ys) = x @ d # join d ys"
  by (cases ys) simp_all

lemma join_split: "join d (split d s) = s"
proof (induction s)
  case Nil show ?case by simp
next
  case (Cons c cs)
  obtain x xs where sp: "split d cs = x # xs" using split_not_Nil[of d cs] by (cases "split d cs") auto
  show ?case
  proof (cases "c = d")
    case True
    then show ?thesis using Cons split_not_Nil[of d cs] by (simp add: join_Cons)
  next
    case False
    then show ?thesis using Cons sp by (cases xs) auto
  qed
qed

lemma split_no_sep: "x \<in> set (split d s) \<Longrightarrow> d \<notin> set x"
proof (induction s arbitrary: x)
  case Nil then show ?case by simp
next
  case (Cons c cs)
  then show ?case by (auto split: if_splits list.splits)
qed

lemma split_plain: "d \<notin> set x \<Longrightarrow> split d x = [x]"
  by (induction x) auto

lemma split_append_sep: "d \<notin> set x \<Longrightarrow> split d (x @ d # rest) = x # split d rest"
  by (induction x) (auto split: list.splits)

lemma split_join:
  "segs \<noteq> [] \<Longrightarrow> \<forall>x \<in> set segs. d \<notin> set x \<Longrightarrow> split d (join d segs) = segs"
  by (induction d segs rule: join.induct) (auto simp: split_plain split_append_sep)

lemma join_snoc: "xs \<noteq> [] \<Longrightarrow> join d (xs @ [b]) = join d xs @ d # b"
  by (induction d xs rule: join.induct) auto

lemma basename_last_segment:
  assumes "b \<noteq> []" "slash \<notin> set b" "pfx = [] \<or> last pfx = slash"
  shows "basename (pfx @ b) = b"
proof -
  have hd: "hd (rev b) \<noteq> slash" using assms(1,2) by (metis hd_rev last_in_set)
  have rb: "rev b \<noteq> []" using assms(1) by simp
  have strip: "stripTrailingSlashes (pfx @ b) = pfx @ b"
    using hd rb by (cases "rev b") (auto simp: stripTrailingSlashes_def)
  have tw: "takeWhile (\<lambda>c. c \<noteq> slash) (rev b @ rev pfx) = rev b"
  proof (cases pfx rule: rev_cases)
    case Nil then show ?thesis using assms(2) by (auto simp: takeWhile_eq_all_conv)
  next
    case (snoc ys y)
    then have "y = slash" using assms(3) by simp
    then show ?thesis using snoc assms(2) by (auto simp: takeWhile_tail)
  qed
  show ?thesis by (simp add: basename_def strip tw)
qed

lemma dropWhile_none: "\<forall>x \<in> set xs. \<not> P x \<Longrightarrow> dropWhile P xs = xs"
  by (cases xs) auto

lemma dirname_plain:
  assumes "b \<noteq> []" "slash \<notin> set b"
  shows "dirname b = ''.''"
proof -
  obtain c cs where b: "b = c # cs" using assms(1) by (cases b) auto
  have ns: "\<forall>x \<in> set (rev cs). x \<noteq> slash" using assms(2) b by auto
  have d1: "dropWhile (\<lambda>x. x = slash) (rev cs) = rev cs"
    using ns by (intro dropWhile_none) simp
  have d2: "dropWhile (\<lambda>x. x \<noteq> slash) (rev cs) = []"
    using ns by (intro iffD2[OF dropWhile_eq_Nil_conv]) 
  show ?thesis using assms(2) b by (simp only: dirname_def list.case Let_def d1 d2) auto
qed

lemma dirname_two_parts:
  assumes "b \<noteq> []" "slash \<notin> set b" "d \<noteq> []" "hd d \<noteq> slash"
  shows "dirname (d @ slash # b) = d"
proof -
  obtain c d' where d: "d = c # d'" using assms(3) by (cases d) auto
  have c: "c \<noteq> slash" using assms(4) d by simp
  have hd: "hd (rev b) \<noteq> slash" using assms(1,2) by (metis hd_rev last_in_set)
  have rb: "rev b \<noteq> []" using assms(1) by simp
  have s1: "dropWhile (\<lambda>x. x = slash) (rev b @ slash # rev d') = rev b @ slash # rev d'"
    using hd rb by (cases "rev b") auto
  have s2: "dropWhile (\<lambda>x. x \<noteq> slash) (rev b @ slash # rev d') = slash # rev d'"
    using assms(2) by (auto simp: dropWhile_append3 dropWhile_append2)
  show ?thesis using c by (simp add: dirname_def d s1 s2)
qed

lemma safeDirOf_dot: "safeDirOf ''.'' = []"
  by code_simp

lemma rebuild_clean_path:
  assumes "cleanSegments p"
  shows "(if safeDirOf (dirname p) \<noteq> [] then safeDirOf (dirname p) @ ''/'' @ basename p
          else basename p) = p"
proof -
  define segs where "segs = split slash p"
  have ne: "segs \<noteq> []" by (simp add: segs_def split_not_Nil)
  have p: "p = join slash segs" by (simp add: segs_def join_split)
  have ns: "\<forall>x \<in> set segs. slash \<notin> set x" using split_no_sep segs_def by blast
  have cl: "\<forall>s \<in> set segs. s \<noteq> [] \<and> s \<noteq> ''.'' \<and> s \<noteq> ''..''"
    using assms by (simp add: cleanSegments_def segs_def)
  obtain ini b where sb: "segs = ini @ [b]" using ne by (metis rev_exhaust)
  have b: "b \<noteq> []" "slash \<notin> set b" using cl ns sb by auto
  show ?thesis
  proof (cases "ini = []")
    case True
    then have "p = b" using p sb by simp
    then show ?thesis
      using basename_last_segment[OF b, of "[]"] dirname_plain[OF b] by (simp add: safeDirOf_dot)
  next
    case False
    define d where "d = join slash ini"
    have pd: "p = d @ slash # b" using p sb False by (simp add: join_snoc d_def)
    obtain x xs where ini: "ini = x # xs" using False by (cases ini) auto
    have x: "x \<noteq> []" "slash \<notin> set x" using cl ns sb ini by auto
    have dne: "d \<noteq> []" using x ini by (cases xs) (auto simp: d_def)
    have hdd: "hd d \<noteq> slash"
    proof -
      have "hd d = hd x" using x ini by (cases xs) (auto simp: d_def)
      then show ?thesis using x by (metis hd_in_set)
    qed
    have sp: "split slash d = ini" unfolding d_def
      using split_join[OF False] ns sb by simp
    have fl: "filter (\<lambda>p. p \<noteq> [] \<and> p \<noteq> ''..'' \<and> p \<noteq> ''.'') ini = ini"
      using cl sb by (auto simp: filter_id_conv)
    have dnd: "d \<noteq> ''.''"
    proof
      assume "d = ''.''"
      then have "ini = [''.'']" using sp by (simp add: slash_def)
      then show False using cl sb by simp
    qed
    have sd: "safeDirOf d = d" using dnd by (simp add: safeDirOf_def sp fl Let_def d_def[symmetric])
    have bn: "basename p = b" unfolding pd
      using basename_last_segment[OF b, of "d @ [slash]"] by simp
    have dn: "dirname p = d" unfolding pd using dirname_two_parts[OF b dne hdd] .
    show ?thesis using dne by (simp add: bn dn sd) (simp add: pd slash_def)
  qed
qed

lemma set_mapSet: "set (mapSet m k v) \<subseteq> insert (k, v) (set m)"
  by (induction m k v rule: mapSet.induct) auto

lemma identityMap_mapSet:
  "identityMap m \<Longrightarrow> dollar \<notin> set k \<Longrightarrow> identityMap (mapSet m k k)"
  using set_mapSet[of m k k] by (auto simp: identityMap_def)

lemma substituteFolder_identity:
  "identityMap m \<Longrightarrow> substituteFolder m n = n"
proof (induction m n rule: substituteFolder.induct)
  case (1 n) show ?case by simp
next
  case (2 old new m n)
  from "2.prems" have eq: "old = new" and nd: "dollar \<notin> set new" and rest: "identityMap m"
    by (auto simp: identityMap_def)
  show ?case
  proof (cases "startsWith n old")
    case True
    then have "take (length new) n = new" using eq by (simp add: startsWith_def)
    then have "new @ drop (length new) n = n" by (metis append_take_drop_id)
    then show ?thesis using True eq nd
      by (simp add: replaceFirst_startsWith getSubstitution_no_dollar)
  next
    case False
    then show ?thesis using "2.IH" rest by simp
  qed
qed

lemma processDirectory_no_groups:
  assumes "backslash \<notin> set (entryName e)" "endsWith (entryName e) ''/''"
    "dollar \<notin> set (entryName e)" "identityMap (folderRenameMap st)"
  shows "newZip (processDirectory engine [] st e) = newZip st @ [(entryName e, entryName e)]
       \<and> identityMap (folderRenameMap (processDirectory engine [] st e))
       \<and> groupCounters (processDirectory engine [] st e) = groupCounters st"
proof -
  have dp: "dirPathOf (entryName e) @ ''/'' = entryName e"
    using assms(1,2) by (rule dirPathOf_normalized)
  show ?thesis
  proof (cases "lastIndexOf (dirPathOf (entryName e)) slash")
    case None
    then show ?thesis using assms(4) by (simp add: processDirectory_topLevel dp)
  next
    case (Some i)
    have "identityMap (mapSet (folderRenameMap st) (entryName e) (entryName e))"
      using assms(3,4) by (rule identityMap_mapSet[rotated])
    then show ?thesis using Some
      by (simp add: processDirectory_def Let_def)
         (simp add: dp append_assoc[symmetric] del: append_assoc)
  qed
qed

lemma processFile_no_groups:
  assumes "backslash \<notin> set (entryName e)" "cleanSegments (entryName e)"
    "identityMap (folderRenameMap st)"
  shows "processFile engine [] st e = st\<lparr>newZip := newZip st @ [(entryName e, entryName e)]\<rparr>"
proof -
  have ns: "normalizeSeparators (entryName e) = entryName e"
    using assms(1) by (rule normalizeSeparators_id)
  have n: "substituteFolder (folderRenameMap st) (entryName e) = entryName e"
    using assms(3) by (rule substituteFolder_identity)
  show ?thesis
    by (simp only: processFile_def Let_def ns n renameFile.simps split_conv
                   rebuild_clean_path[OF assms(2)])
       simp
qed

lemma foldl_processDirectory_no_groups:
  assumes "\<forall>e \<in> set es. backslash \<notin> set (entryName e) \<and> endsWith (entryName e) ''/''
              \<and> dollar \<notin> set (entryName e)"
    and "identityMap (folderRenameMap st)"
  shows "newZip (foldl (processDirectory engine []) st es)
           = newZip st @ map (\<lambda>e. (entryName e, entryName e)) es
       \<and> identityMap (folderRenameMap (foldl (processDirectory engine []) st es))
       \<and> groupCounters (foldl (processDirectory engine []) st es) = groupCounters st"
  using assms
proof (induction es arbitrary: st)
  case Nil then show ?case by simp
next
  case (Cons e es)
  have step: "newZip (processDirectory engine [] st e) = newZip st @ [(entryName e, entryName e)]
       \<and> identityMap (folderRenameMap (processDirectory engine [] st e))
       \<and> groupCounters (processDirectory engine [] st e) = groupCounters st"
    using Cons.prems by (intro processDirectory_no_groups) auto
  have "\<forall>e \<in> set es. backslash \<notin> set (entryName e) \<and> endsWith (entryName e) ''/''
              \<and> dollar \<notin> set (entryName e)"
    using Cons.prems(1) by simp
  from Cons.IH[OF this, of "processDirectory engine [] st e"] step
  show ?case by simp
qed

lemma foldl_processFile_no_groups:
  assumes "\<forall>e \<in> set es. backslash \<notin> set (entryName e) \<and> cleanSegments (entryName e)"
    and "identityMap (folderRenameMap st)"
  shows "foldl (processFile engine []) st es
           = st\<lparr>newZip := newZip st @ map (\<lambda>e. (entryName e, entryName e)) es\<rparr>"
  using assms
proof (induction es arbitrary: st)
  case Nil then show ?case by simp
next
  case (Cons e es)
  have step: "processFile engine [] st e = st\<lparr>newZip := newZip st @ [(entryName e, entryName e)]\<rparr>"
    using Cons.prems by (intro processFile_no_groups) auto
  have "\<forall>e \<in> set es. backslash \<notin> set (entryName e) \<and> cleanSegments (entryName e)"
    using Cons.prems(1) by simp
  from Cons.IH[OF this, of "processFile engine [] st e"] step Cons.prems(2)
  show ?case by simp
qed

text \<open>
  C3 (as the code has it). With no rule group, a listing of clean paths comes out as it
  went in: every directory, then every file, each under its original path. (Clean: no
  backslash; a directory ends with a slash and has no dollar sign; a file has no empty
  segment and no segment \<^verbatim>\<open>.\<close> or \<^verbatim>\<open>..\<close>.)
\<close>

theorem no_groups_identity:
  assumes "\<forall>e \<in> set allEntries. cleanEntry e"
  shows "newZip (processEntries engine [] allEntries)
           = map (\<lambda>e. (entryName e, entryName e))
               (filter isDirectory allEntries @ filter (\<lambda>e. \<not> isDirectory e) allEntries)"
proof -
  have dirs: "\<forall>e \<in> set (filter isDirectory allEntries).
      backslash \<notin> set (entryName e) \<and> endsWith (entryName e) ''/'' \<and> dollar \<notin> set (entryName e)"
    using assms by (auto simp: cleanEntry_def)
  have files: "\<forall>e \<in> set (filter (\<lambda>e. \<not> isDirectory e) allEntries).
      backslash \<notin> set (entryName e) \<and> cleanSegments (entryName e)"
    using assms by (auto simp: cleanEntry_def)
  have p1: "newZip (directoryPhase engine [] allEntries)
              = map (\<lambda>e. (entryName e, entryName e)) (filter isDirectory allEntries)
          \<and> identityMap (folderRenameMap (directoryPhase engine [] allEntries))"
    unfolding directoryPhase_def
    using foldl_processDirectory_no_groups[OF dirs, of
             "\<lparr>groupCounters = initCounters [], folderRenameMap = [], newZip = []\<rparr>" engine]
    by (simp add: identityMap_def)
  show ?thesis
    unfolding processEntries_def
    using foldl_processFile_no_groups[OF files, of "directoryPhase engine [] allEntries" engine] p1
    by simp
qed

theorem no_groups_identity_witness:
  "newZip (processEntries rejectAll []
      [dirEntry ''docs/'', fileEntry ''b.txt'', dirEntry ''docs/img/'',
       fileEntry ''docs/img/a.png''])
     = [(''docs/'', ''docs/''), (''docs/img/'', ''docs/img/''),
        (''b.txt'', ''b.txt''), (''docs/img/a.png'', ''docs/img/a.png'')]"
proof -
  let ?E = "[dirEntry ''docs/'', fileEntry ''b.txt'', dirEntry ''docs/img/'',
             fileEntry ''docs/img/a.png'']"
  have h: "\<forall>e \<in> set ?E. cleanEntry e" by code_simp
  have r: "map (\<lambda>e. (entryName e, entryName e))
             (filter isDirectory ?E @ filter (\<lambda>e. \<not> isDirectory e) ?E)
           = [(''docs/'', ''docs/''), (''docs/img/'', ''docs/img/''),
              (''b.txt'', ''b.txt''), (''docs/img/a.png'', ''docs/img/a.png'')]"
    by (simp add: dirEntry_def fileEntry_def)
  from no_groups_identity[OF h, of rejectAll] show ?thesis by (simp only: r)
qed

theorem no_groups_identity_counterexample:
  "newZip (processEntries rejectAll [] [fileEntry ''./a.txt'']) = [(''./a.txt'', ''a.txt'')]"
  by code_simp

section \<open>Properties of the analyzer\<close>

lemma map_of_mapPush:
  "map_of (mapPush m k v) k' =
     (if k' = k then Some ((case map_of m k of None \<Rightarrow> [] | Some vs \<Rightarrow> vs) @ [v])
      else map_of m k')"
  by (induction m k v rule: mapPush.induct) auto

lemma keys_mapPush: "fst ` set (mapPush m k v) = insert k (fst ` set m)"
  by (induction m k v rule: mapPush.induct) auto

lemma distinct_mapPush: "distinct (map fst m) \<Longrightarrow> distinct (map fst (mapPush m k v))"
  by (induction m k v rule: mapPush.induct) (auto simp: keys_mapPush)

lemma map_of_foldl_duplicateStep:
  "map_of (foldl duplicateStep m files) k =
     (if groupPaths files k = [] then map_of m k
      else Some ((case map_of m k of None \<Rightarrow> [] | Some vs \<Rightarrow> vs) @ groupPaths files k))"
  by (induction files arbitrary: m)
     (auto simp: groupPaths_def duplicateStep_def map_of_mapPush split: option.splits)

lemma distinct_foldl_duplicateStep:
  "distinct (map fst m) \<Longrightarrow> distinct (map fst (foldl duplicateStep m files))"
  by (induction files arbitrary: m) (auto simp: duplicateStep_def distinct_mapPush)

lemma duplicateMap_iff:
  "(k, ps) \<in> set (duplicateMap files) \<longleftrightarrow> ps \<noteq> [] \<and> ps = groupPaths files k"
proof -
  have d: "distinct (map fst (duplicateMap files))"
    by (simp add: duplicateMap_def distinct_foldl_duplicateStep)
  have "(k, ps) \<in> set (duplicateMap files) \<longleftrightarrow> map_of (duplicateMap files) k = Some ps"
    using d by simp
  also have "\<dots> \<longleftrightarrow> ps \<noteq> [] \<and> ps = groupPaths files k"
    by (auto simp: duplicateMap_def map_of_foldl_duplicateStep)
  finally show ?thesis .
qed

text \<open>
  C7 (as the code has it). The duplicate detector groups the files by the key made of the
  parent directory, \<^verbatim>\<open>::\<close> and the lower-cased base name (accented capitals are
  lower-cased as well), so that files of one directory whose base names are alike but for
  case are in one group; it reports a group exactly when it holds more than one file, alike
  or not in spelling; the warning counts the group and carries its first ten paths.
\<close>

theorem detectDuplicates_groups:
  "(w \<in> set (detectDuplicates files) \<longleftrightarrow>
      (\<exists>k. length (groupPaths files k) > 1
           \<and> w = \<lparr>dupDirectory = strOr (Some (firstPiece ''::'' k)) ''/'',
                   dupFilename = basename (hd (groupPaths files k)),
                   dupCount = length (groupPaths files k),
                   dupPaths = take 10 (groupPaths files k)\<rparr>))
   \<and> (\<forall>w \<in> set (detectDuplicates files). length (dupPaths w) \<le> 10)
   \<and> groupPaths files k =
        map originalName
          (filter (\<lambda>f. \<not> isDir f
                       \<and> dirname (originalName f) @ ''::'' @ toLowerCase (basename (originalName f))
                          = k) files)
   \<and> (\<forall>f \<in> set files. \<forall>f' \<in> set files.
         \<not> isDir f \<and> \<not> isDir f'
         \<and> dirname (originalName f) = dirname (originalName f')
         \<and> toLowerCase (basename (originalName f)) = toLowerCase (basename (originalName f'))
         \<longrightarrow> originalName f' \<in> set (groupPaths files (duplicateKey f)))
   \<and> detectDuplicates [plainFile (CHR 0xC9 # ''cole.txt''), plainFile (CHR 0xE9 # ''COLE.txt'')]
       = [\<lparr>dupDirectory = ''.'', dupFilename = CHR 0xC9 # ''cole.txt'', dupCount = 2,
            dupPaths = [CHR 0xC9 # ''cole.txt'', CHR 0xE9 # ''COLE.txt'']\<rparr>]"
proof -
  have mem: "w \<in> set (detectDuplicates files) \<longleftrightarrow>
      (\<exists>k ps. (k, ps) \<in> set (duplicateMap files) \<and> length ps > 1
           \<and> w = \<lparr>dupDirectory = strOr (Some (firstPiece ''::'' k)) ''/'',
                   dupFilename = basename (hd ps),
                   dupCount = length ps,
                   dupPaths = take 10 ps\<rparr>)" for w
    by (auto simp: detectDuplicates_def split: if_splits)
  have a: "w \<in> set (detectDuplicates files) \<longleftrightarrow>
      (\<exists>k. length (groupPaths files k) > 1
           \<and> w = \<lparr>dupDirectory = strOr (Some (firstPiece ''::'' k)) ''/'',
                   dupFilename = basename (hd (groupPaths files k)),
                   dupCount = length (groupPaths files k),
                   dupPaths = take 10 (groupPaths files k)\<rparr>)"
  proof
    assume "w \<in> set (detectDuplicates files)"
    then obtain k ps where "ps \<noteq> []" "ps = groupPaths files k" "length ps > 1"
       "w = \<lparr>dupDirectory = strOr (Some (firstPiece ''::'' k)) ''/'',
                   dupFilename = basename (hd ps),
                   dupCount = length ps,
                   dupPaths = take 10 ps\<rparr>"
      unfolding mem duplicateMap_iff by blast
    then show "\<exists>k. length (groupPaths files k) > 1
           \<and> w = \<lparr>dupDirectory = strOr (Some (firstPiece ''::'' k)) ''/'',
                   dupFilename = basename (hd (groupPaths files k)),
                   dupCount = length (groupPaths files k),
                   dupPaths = take 10 (groupPaths files k)\<rparr>"
      by blast
  next
    assume "\<exists>k. length (groupPaths files k) > 1
           \<and> w = \<lparr>dupDirectory = strOr (Some (firstPiece ''::'' k)) ''/'',
                   dupFilename = basename (hd (groupPaths files k)),
                   dupCount = length (groupPaths files k),
                   dupPaths = take 10 (groupPaths files k)\<rparr>"
    then obtain k where k: "length (groupPaths files k) > 1"
           "w = \<lparr>dupDirectory = strOr (Some (firstPiece ''::'' k)) ''/'',
                   dupFilename = basename (hd (groupPaths files k)),
                   dupCount = length (groupPaths files k),
                   dupPaths = take 10 (groupPaths files k)\<rparr>"
      by blast
    from k(1) have "groupPaths files k \<noteq> []" by auto
    then have "(k, groupPaths files k) \<in> set (duplicateMap files)"
      by (simp add: duplicateMap_iff)
    with k show "w \<in> set (detectDuplicates files)" unfolding mem by blast
  qed
  have b: "\<forall>w \<in> set (detectDuplicates files). length (dupPaths w) \<le> 10"
    by (auto simp: detectDuplicates_def split: if_splits)
  have c: "groupPaths files k =
        map originalName
          (filter (\<lambda>f. \<not> isDir f
                       \<and> dirname (originalName f) @ ''::'' @ toLowerCase (basename (originalName f))
                          = k) files)"
    by (simp add: groupPaths_def duplicateKey_def)
  have d: "\<forall>f \<in> set files. \<forall>f' \<in> set files.
         \<not> isDir f \<and> \<not> isDir f'
         \<and> dirname (originalName f) = dirname (originalName f')
         \<and> toLowerCase (basename (originalName f)) = toLowerCase (basename (originalName f'))
         \<longrightarrow> originalName f' \<in> set (groupPaths files (duplicateKey f))"
    by (auto simp: groupPaths_def duplicateKey_def)
  have e: "detectDuplicates [plainFile (CHR 0xC9 # ''cole.txt''), plainFile (CHR 0xE9 # ''COLE.txt'')]
       = [\<lparr>dupDirectory = ''.'', dupFilename = CHR 0xC9 # ''cole.txt'', dupCount = 2,
            dupPaths = [CHR 0xC9 # ''cole.txt'', CHR 0xE9 # ''COLE.txt'']\<rparr>]"
    by code_simp
  show ?thesis using a b c d e by (intro conjI)
qed

theorem detectDuplicates_groups_witness:
  "\<lparr>dupDirectory = ''d'', dupFilename = ''a.txt'', dupCount = 2,
     dupPaths = [''d/a.txt'', ''d/A.txt'']\<rparr>
     \<in> set (detectDuplicates [plainFile ''d/a.txt'', plainFile ''d/A.txt'', plainFile ''e/a.txt''])
   \<and> length (dupPaths \<lparr>dupDirectory = ''d'', dupFilename = ''a.txt'', dupCount = 2,
                        dupPaths = [''d/a.txt'', ''d/A.txt'']\<rparr>) \<le> 10
   \<and> ''d/A.txt''
       \<in> set (groupPaths [plainFile ''d/a.txt'', plainFile ''d/A.txt'', plainFile ''e/a.txt'']
                 ''d::a.txt'')"
proof -
  let ?files = "[plainFile ''d/a.txt'', plainFile ''d/A.txt'', plainFile ''e/a.txt'']"
  let ?w = "\<lparr>dupDirectory = ''d'', dupFilename = ''a.txt'', dupCount = 2,
              dupPaths = [''d/a.txt'', ''d/A.txt'']\<rparr>"
  have g: "groupPaths ?files ''d::a.txt'' = [''d/a.txt'', ''d/A.txt'']" by code_simp
  have d: "strOr (Some (firstPiece ''::'' ''d::a.txt'')) ''/'' = ''d''" by code_simp
  have b: "basename ''d/a.txt'' = ''a.txt''" by code_simp
  have ex: "\<exists>k. length (groupPaths ?files k) > 1
           \<and> ?w = \<lparr>dupDirectory = strOr (Some (firstPiece ''::'' k)) ''/'',
                   dupFilename = basename (hd (groupPaths ?files k)),
                   dupCount = length (groupPaths ?files k),
                   dupPaths = take 10 (groupPaths ?files k)\<rparr>"
    by (rule exI[of _ "''d::a.txt''"]) (simp only: g d, simp add: b)
  note T = detectDuplicates_groups[of ?w ?files]
  from T[THEN conjunct1] ex have m: "?w \<in> set (detectDuplicates ?files)" by (rule iffD2)
  from T[THEN conjunct2, THEN conjunct1] m have l: "length (dupPaths ?w) \<le> 10" by (rule bspec)
  have f1: "plainFile ''d/a.txt'' \<in> set ?files" and f2: "plainFile ''d/A.txt'' \<in> set ?files"
    by simp_all
  have same: "\<not> isDir (plainFile ''d/a.txt'') \<and> \<not> isDir (plainFile ''d/A.txt'')
         \<and> dirname (originalName (plainFile ''d/a.txt''))
             = dirname (originalName (plainFile ''d/A.txt''))
         \<and> toLowerCase (basename (originalName (plainFile ''d/a.txt'')))
             = toLowerCase (basename (originalName (plainFile ''d/A.txt'')))"
    by code_simp
  have key: "duplicateKey (plainFile ''d/a.txt'') = ''d::a.txt''" by code_simp
  have nm: "originalName (plainFile ''d/A.txt'') = ''d/A.txt''" by (simp add: plainFile_def)
  from T[THEN conjunct2, THEN conjunct2, THEN conjunct2, THEN conjunct1, rule_format, OF f1 f2 same]
  have p: "''d/A.txt'' \<in> set (groupPaths ?files ''d::a.txt'')"
    by (simp only: key nm)
  from m l p show ?thesis by (intro conjI)
qed

theorem detectDuplicates_same_spelling_counterexample:
  "detectDuplicates [plainFile ''a.txt'', plainFile ''a.txt'']
     = [\<lparr>dupDirectory = ''.'', dupFilename = ''a.txt'', dupCount = 2,
          dupPaths = [''a.txt'', ''a.txt'']\<rparr>]
   \<and> uniqueFirst [''a.txt'', ''a.txt''] = [''a.txt'']"
  by code_simp

text \<open>
  C8. Where the three calls of the platform return, and they return for every string,
  \<open>checkUnicode\<close> adds the mismatch warning exactly when the two normal forms differ and
  the path is not its composed form, and nothing else: what the round trip through UTF-8
  gives back is not compared with the path, so a path that the round trip changes is not
  flagged as an invalid sequence.
\<close>

theorem checkUnicode_ignores_round_trip:
  assumes "normalizeNFC pf (originalName file) = Some nfc"
    and "normalizeNFD pf (originalName file) = Some nfd"
    and "utf8RoundTrip pf (originalName file) = Some decoded"
  shows "checkUnicode pf file ws =
           (if nfc \<noteq> nfd \<and> originalName file \<noteq> nfc
            then ws @ [nfcNfdMismatch (originalName file)] else ws)"
  using assms by (simp add: checkUnicode_def Let_def)

theorem checkUnicode_ignores_round_trip_witness:
  "utf8RoundTrip lossyPlatform (CHR 0xFF # ''.txt'') = Some ''?.txt''
   \<and> checkUnicode lossyPlatform (plainFile (CHR 0xFF # ''.txt'')) [] = []"
proof -
  let ?p = "CHR 0xFF # ''.txt''"
  have n: "originalName (plainFile ?p) = ?p" by (simp add: plainFile_def)
  have h1: "normalizeNFC lossyPlatform (originalName (plainFile ?p)) = Some ?p"
    by (simp add: lossyPlatform_def n)
  have h2: "normalizeNFD lossyPlatform (originalName (plainFile ?p)) = Some ?p"
    by (simp add: lossyPlatform_def n)
  have h3: "utf8RoundTrip lossyPlatform (originalName (plainFile ?p)) = Some ''?.txt''"
    by (simp add: lossyPlatform_def n)
  from checkUnicode_ignores_round_trip[OF h1 h2 h3, of "[]"] h3
  show ?thesis by (simp add: n)
qed


end
